theory Spec2Isabelle
  imports Main "HOL-Library.Word"
begin

unbundle bit_operations_syntax

section \<open>Machine model\<close>

text \<open>
  The kernel runs on a 32-bit ARM Cortex-M core. Memory is one flat store of 32-bit
  words indexed by byte address (address arithmetic wraps modulo \<open>2 ^ 32\<close>). Every
  access of the kernel is a word access through a \<open>uint32_t *\<close> or a \<open>TCB *\<close>, so the
  store is kept at word granularity: the cell of address \<open>a\<close> is the aligned word at \<open>a\<close>,
  and neighbouring words are 4 bytes apart. TCBs, the two scheduler globals and the
  thread stacks all live in this one store, so every aliasing between them is visible.
\<close>

type_synonym word32 = "32 word"

datatype reg = R0 | R1 | R2 | R3 | R4 | R5 | R6 | R7 | R8 | R9 | R10 | R11 | R12 | LR

record machine =
  regs :: "reg \<Rightarrow> word32"
  PSP :: word32
  PC :: word32
  xPSR :: word32
  mem :: "word32 \<Rightarrow> word32"
  ICSR :: word32

text \<open>
  \<open>PC\<close> is tracked at control transfers only (\<open>BX\<close> and exception return); \<open>ICSR\<close>
  is the interrupt control and state register behind \<open>SCB->ICSR\<close>.

  \<open>typedef struct TCB { uint32_t *stack_pointer; struct TCB *next; } TCB;\<close>
  Two pointers of four bytes each: \<open>stack_pointer\<close> at offset 0, \<open>next\<close> at offset 4.
\<close>

definition stack_pointer_field :: "word32 \<Rightarrow> word32" where
  "stack_pointer_field tcb = tcb"

definition next_field :: "word32 \<Rightarrow> word32" where
  "next_field tcb = tcb + 4"

text \<open>
  The addresses the linker gives the globals \<open>current_tcb\<close> and \<open>next_tcb\<close> are not
  in the source; they are parameters of the model.
\<close>

record symbols =
  current_tcb_addr :: word32
  next_tcb_addr :: word32

definition current_tcb :: "symbols \<Rightarrow> machine \<Rightarrow> word32" where
  "current_tcb L s = mem s (current_tcb_addr L)"

definition next_tcb :: "symbols \<Rightarrow> machine \<Rightarrow> word32" where
  "next_tcb L s = mem s (next_tcb_addr L)"

section \<open>OS_ThreadInit\<close>

text \<open>\<open>*(--sp) = v\<close>: decrement the \<open>uint32_t *\<close> by one word, then store through it.\<close>

definition push :: "word32 \<Rightarrow> word32 \<times> (word32 \<Rightarrow> word32) \<Rightarrow> word32 \<times> (word32 \<Rightarrow> word32)" where
  "push v = (\<lambda>(sp, m). (sp - 4, m(sp - 4 := v)))"

text \<open>
  \<open>stack_size\<close> is a C \<open>int\<close>; \<open>&stack_array[stack_size]\<close> is the address
  \<open>stack_array + 4 * stack_size\<close>. \<open>task\<close> is the entry function's address.
\<close>

definition OS_ThreadInit :: "word32 \<Rightarrow> word32 \<Rightarrow> int \<Rightarrow> word32 \<Rightarrow> machine \<Rightarrow> machine" where
  "OS_ThreadInit tcb stack_array stack_size task s =
     (let st = (stack_array + 4 * word_of_int stack_size, mem s);
          st = push 0x01000000 st;
          st = push task st;
          st = push 0 st;
          st = push 0 st;
          st = push 0 st;
          st = push 0 st;
          st = push 0 st;
          st = push 0 st;
          st = push 0 st;
          st = push 0 st;
          st = push 0 st;
          st = push 0 st;
          st = push 0 st;
          st = push 0 st;
          st = push 0 st;
          st = push 0 st
      in s\<lparr>mem := (snd st)(stack_pointer_field tcb := fst st)\<rparr>)"

section \<open>SysTick_Handler\<close>

text \<open>
  \<open>next_tcb = current_tcb->next; SCB->ICSR |= (1UL<<28);\<close>
  Dereferencing a null \<open>current_tcb\<close> is undefined behaviour in C: the model returns
  \<open>None\<close> there. Bit 28 of ICSR is PENDSVSET; the read-modify-write is modelled on the
  register's value.
\<close>

definition SysTick_Handler :: "symbols \<Rightarrow> machine \<Rightarrow> machine option" where
  "SysTick_Handler L s =
     (if current_tcb L s = 0 then None
      else
        (let s = s\<lparr>mem := (mem s)(next_tcb_addr L := mem s (next_field (current_tcb L s)))\<rparr>;
             s = s\<lparr>ICSR := ICSR s OR push_bit 28 1\<rparr>
         in Some s))"

section \<open>Thumb instructions used by PendSV_Handler\<close>

text \<open>\<open>LDR Rd, =value\<close>: load a literal (a symbol's address or a constant).\<close>

definition LDR_lit :: "reg \<Rightarrow> word32 \<Rightarrow> machine \<Rightarrow> machine" where
  "LDR_lit rd v s = s\<lparr>regs := (regs s)(rd := v)\<rparr>"

text \<open>\<open>LDR Rt, [Rn]\<close> and \<open>STR Rt, [Rn]\<close> (the name \<open>STR\<close> is taken by string literals).\<close>

definition LDR_reg :: "reg \<Rightarrow> reg \<Rightarrow> machine \<Rightarrow> machine" where
  "LDR_reg rt rn s = s\<lparr>regs := (regs s)(rt := mem s (regs s rn))\<rparr>"

definition STR_reg :: "reg \<Rightarrow> reg \<Rightarrow> machine \<Rightarrow> machine" where
  "STR_reg rt rn s = s\<lparr>mem := (mem s)(regs s rn := regs s rt)\<rparr>"

text \<open>
  \<open>CMP Rn, #imm\<close> computes \<open>Rn - imm\<close> and writes the flags N, Z, C, V into bits
  31..28 of the program status register; \<open>BEQ\<close> branches when Z (bit 30) is set.
\<close>

definition set_NZCV :: "bool \<Rightarrow> bool \<Rightarrow> bool \<Rightarrow> bool \<Rightarrow> word32 \<Rightarrow> word32" where
  "set_NZCV n z c v w =
     (w AND 0x0FFFFFFF) OR (if n then 0x80000000 else 0) OR (if z then 0x40000000 else 0)
       OR (if c then 0x20000000 else 0) OR (if v then 0x10000000 else 0)"

definition CMP_imm :: "reg \<Rightarrow> word32 \<Rightarrow> machine \<Rightarrow> machine" where
  "CMP_imm rn imm s =
     (let x = regs s rn; r = x - imm
      in s\<lparr>xPSR := set_NZCV (bit r 31) (r = 0) (imm \<le> x) (sint x - sint imm \<noteq> sint r) (xPSR s)\<rparr>)"

definition flag_Z :: "machine \<Rightarrow> bool" where
  "flag_Z s = bit (xPSR s) 30"

text \<open>\<open>MRS Rd, PSP\<close> and \<open>MSR PSP, Rn\<close>: read and write the process stack pointer.\<close>

definition MRS_PSP :: "reg \<Rightarrow> machine \<Rightarrow> machine" where
  "MRS_PSP rd s = s\<lparr>regs := (regs s)(rd := PSP s)\<rparr>"

definition MSR_PSP :: "reg \<Rightarrow> machine \<Rightarrow> machine" where
  "MSR_PSP rn s = s\<lparr>PSP := regs s rn\<rparr>"

text \<open>
  \<open>STMDB Rn!, {list}\<close>: the start address is \<open>Rn - 4 * count\<close>; the registers of the
  list are stored in ascending register order at ascending addresses; \<open>Rn\<close> is written
  back with the start address.
\<close>

fun store_regs :: "word32 \<Rightarrow> reg list \<Rightarrow> machine \<Rightarrow> machine" where
  "store_regs a [] s = s"
| "store_regs a (r # rs) s = store_regs (a + 4) rs (s\<lparr>mem := (mem s)(a := regs s r)\<rparr>)"

definition STMDB_wb :: "reg \<Rightarrow> reg list \<Rightarrow> machine \<Rightarrow> machine" where
  "STMDB_wb rn rs s =
     (let a = regs s rn - 4 * of_nat (length rs);
          s = store_regs a rs s
      in s\<lparr>regs := (regs s)(rn := a)\<rparr>)"

text \<open>
  \<open>LDMIA Rn!, {list}\<close>: the registers of the list are loaded in ascending register
  order from ascending addresses starting at \<open>Rn\<close>; \<open>Rn\<close> is written back with the
  address after the last word (\<open>Rn\<close> is not in the list here).
\<close>

fun load_regs :: "word32 \<Rightarrow> reg list \<Rightarrow> machine \<Rightarrow> machine" where
  "load_regs a [] s = s"
| "load_regs a (r # rs) s = load_regs (a + 4) rs (s\<lparr>regs := (regs s)(r := mem s a)\<rparr>)"

definition LDMIA_wb :: "reg \<Rightarrow> reg list \<Rightarrow> machine \<Rightarrow> machine" where
  "LDMIA_wb rn rs s =
     (let a = regs s rn;
          s = load_regs a rs s
      in s\<lparr>regs := (regs s)(rn := a + 4 * of_nat (length rs))\<rparr>)"

text \<open>\<open>ISB\<close> flushes the pipeline: no effect on the modelled state.\<close>

definition ISB :: "machine \<Rightarrow> machine" where
  "ISB s = s"

definition MOV :: "reg \<Rightarrow> reg \<Rightarrow> machine \<Rightarrow> machine" where
  "MOV rd rm s = s\<lparr>regs := (regs s)(rd := regs s rm)\<rparr>"

text \<open>\<open>BX Rm\<close>: branch to the address in \<open>Rm\<close>.\<close>

definition BX :: "reg \<Rightarrow> machine \<Rightarrow> machine" where
  "BX rm s = s\<lparr>PC := regs s rm\<rparr>"

section \<open>PendSV_Handler\<close>

definition R4_R11 :: "reg list" where
  "R4_R11 = [R4, R5, R6, R7, R8, R9, R10, R11]"

text \<open>The instructions before the label \<open>LoadNewContext\<close>, with the \<open>BEQ\<close> over the save.\<close>

definition save_context :: "symbols \<Rightarrow> machine \<Rightarrow> machine" where
  "save_context L s =
     (let s = LDR_lit R1 (current_tcb_addr L) s;
          s = LDR_reg R2 R1 s;
          s = CMP_imm R2 0 s
      in if flag_Z s then s
         else
           (let s = MRS_PSP R0 s;
                s = STMDB_wb R0 R4_R11 s;
                s = STR_reg R0 R2 s
            in s))"

text \<open>The instructions from the label \<open>LoadNewContext\<close> on.\<close>

definition LoadNewContext :: "symbols \<Rightarrow> machine \<Rightarrow> machine" where
  "LoadNewContext L s =
     (let s = LDR_lit R3 (next_tcb_addr L) s;
          s = LDR_reg R4 R3 s;
          s = STR_reg R4 R1 s;
          s = LDR_reg R0 R4 s;
          s = LDMIA_wb R0 R4_R11 s;
          s = MSR_PSP R0 s;
          s = ISB s;
          s = LDR_lit R0 0xFFFFFFFD s;
          s = MOV LR R0 s;
          s = BX LR s
      in s)"

definition PendSV_Handler :: "symbols \<Rightarrow> machine \<Rightarrow> machine" where
  "PendSV_Handler L s = LoadNewContext L (save_context L s)"

section \<open>Exception return\<close>

text \<open>
  Modelled from the spec: the processor's automatic exception epilogue is hardware, not
  code of the repository. Branching to the value \<open>0xFFFFFFFD\<close> returns to thread mode
  on the process stack: the hardware pops the eight-word frame at \<open>PSP\<close>, in ascending
  address order R0, R1, R2, R3, R12, LR, PC, status register. Other return values (main
  stack) are outside the model: \<open>None\<close>.
\<close>

definition exception_return :: "machine \<Rightarrow> machine option" where
  "exception_return s =
     (if PC s = 0xFFFFFFFD then
        (let f = PSP s; m = mem s
         in Some (s\<lparr>regs := (regs s)(R0 := m f, R1 := m (f + 4), R2 := m (f + 8),
                                     R3 := m (f + 12), R12 := m (f + 16), LR := m (f + 20)),
                    PC := m (f + 24), xPSR := m (f + 28), PSP := f + 32\<rparr>))
      else None)"

section \<open>Vocabulary of the properties\<close>

text \<open>The addresses of \<open>n\<close> consecutive words starting at \<open>a\<close>, in ascending order.\<close>

fun word_addrs :: "word32 \<Rightarrow> nat \<Rightarrow> word32 list" where
  "word_addrs a 0 = []"
| "word_addrs a (Suc n) = a # word_addrs (a + 4) n"

text \<open>Storing a list of words at ascending addresses, and reading \<open>n\<close> words back.\<close>

fun write_words :: "(word32 \<Rightarrow> word32) \<Rightarrow> word32 \<Rightarrow> word32 list \<Rightarrow> (word32 \<Rightarrow> word32)" where
  "write_words m a [] = m"
| "write_words m a (v # vs) = write_words (m(a := v)) (a + 4) vs"

definition read_words :: "(word32 \<Rightarrow> word32) \<Rightarrow> word32 \<Rightarrow> nat \<Rightarrow> word32 list" where
  "read_words m a n = map m (word_addrs a n)"

text \<open>\<open>&stack_array[stack_size]\<close>, one past the last word of the buffer.\<close>

definition stack_top :: "word32 \<Rightarrow> int \<Rightarrow> word32" where
  "stack_top stack_array stack_size = stack_array + 4 * word_of_int stack_size"

text \<open>
  The cells the save phase of \<open>PendSV_Handler\<close> stores to: none when \<open>current_tcb\<close> is
  null, otherwise the eight words below the process stack pointer and the current TCB's
  \<open>stack_pointer\<close> field.
\<close>

definition save_cells :: "symbols \<Rightarrow> machine \<Rightarrow> word32 set" where
  "save_cells L s =
     (if current_tcb L s = 0 then {}
      else set (word_addrs (PSP s - 32) 8) \<union> {stack_pointer_field (current_tcb L s)})"

text \<open>
  The cells that hold scheduler state for a ring \<open>ts\<close> of TCB addresses: the two
  globals and both fields of every TCB. The layout is well formed when no TCB is at
  address 0 and these cells are pairwise distinct (the globals and the TCBs are separate
  objects).
\<close>

definition kernel_cells :: "symbols \<Rightarrow> word32 list \<Rightarrow> word32 list" where
  "kernel_cells L ts =
     [current_tcb_addr L, next_tcb_addr L] @ map stack_pointer_field ts @ map next_field ts"

definition layout_ok :: "symbols \<Rightarrow> word32 list \<Rightarrow> bool" where
  "layout_ok L ts \<longleftrightarrow> 0 \<notin> set ts \<and> distinct (kernel_cells L ts)"

text \<open>
  A closed ring: a non-empty list of TCBs in which the \<open>next\<close> field of each element
  holds the address of its successor, and that of the last element the address of the
  first.
\<close>

definition closed_ring :: "(word32 \<Rightarrow> word32) \<Rightarrow> word32 list \<Rightarrow> bool" where
  "closed_ring m ts \<longleftrightarrow> ts \<noteq> [] \<and> map (\<lambda>t. m (next_field t)) ts = rotate1 ts"

text \<open>
  The eight-word save area starting at \<open>a\<close> does not overlap the scheduler's cells (a
  thread's stack pointer stays inside the thread's own stack).
\<close>

definition stack_clear :: "symbols \<Rightarrow> word32 list \<Rightarrow> word32 \<Rightarrow> bool" where
  "stack_clear L ts a \<longleftrightarrow> set (word_addrs a 8) \<inter> set (kernel_cells L ts) = {}"

text \<open>
  The well-formed scheduling states: the layout is well formed, the ring is closed, the
  current thread belongs to it, the save area below the process stack pointer is clear,
  and so is the saved frame of every thread that is not running.
\<close>

definition sched_inv :: "symbols \<Rightarrow> word32 list \<Rightarrow> machine \<Rightarrow> bool" where
  "sched_inv L ts s \<longleftrightarrow>
     layout_ok L ts \<and> closed_ring (mem s) ts \<and> current_tcb L s \<in> set ts \<and>
     stack_clear L ts (PSP s - 32) \<and>
     (\<forall>t \<in> set ts. t \<noteq> current_tcb L s \<longrightarrow> stack_clear L ts (mem s (stack_pointer_field t)))"

text \<open>
  One tick-then-switch cycle: \<open>SysTick_Handler\<close> pends the switch, \<open>PendSV_Handler\<close> runs
  when it returns; \<open>cycles L n\<close> runs \<open>n\<close> of them in a row.
\<close>

definition cycle :: "symbols \<Rightarrow> machine \<Rightarrow> machine option" where
  "cycle L s = (case SysTick_Handler L s of None \<Rightarrow> None | Some s1 \<Rightarrow> Some (PendSV_Handler L s1))"

fun cycles :: "symbols \<Rightarrow> nat \<Rightarrow> machine \<Rightarrow> machine option" where
  "cycles L 0 s = Some s"
| "cycles L (Suc n) s = (case cycle L s of None \<Rightarrow> None | Some s' \<Rightarrow> cycles L n s')"

text \<open>
  The steady state of a one-thread ring between two switches with no thread code in
  between: \<open>next_tcb\<close> is the thread, its saved stack pointer is the save area below the
  process stack pointer, and that area already holds R4..R11.
\<close>

definition steady :: "symbols \<Rightarrow> word32 \<Rightarrow> machine \<Rightarrow> bool" where
  "steady L T s \<longleftrightarrow>
     next_tcb L s = T \<and> mem s (stack_pointer_field T) = PSP s - 32 \<and>
     read_words (mem s) (PSP s - 32) 8 = map (regs s) R4_R11"

text \<open>
  The kernel's three operations, and runs of them in any order. \<open>op_cells\<close> lists the
  cells an operation stores to in a given state: for \<open>OS_ThreadInit\<close> the sixteen words
  of the frame and the TCB's \<open>stack_pointer\<close> field, for the tick the global \<open>next_tcb\<close>,
  for the switch the cells of the save phase and the global \<open>current_tcb\<close>. \<open>apart L C\<close>
  says that no operation of a run stores to a cell of \<open>C\<close>.
\<close>

datatype kernel_op = ThreadInit word32 word32 int word32 | Tick | Switch

fun kernel_step :: "symbols \<Rightarrow> kernel_op \<Rightarrow> machine \<Rightarrow> machine option" where
  "kernel_step L (ThreadInit tcb stack_array stack_size task) s =
     Some (OS_ThreadInit tcb stack_array stack_size task s)"
| "kernel_step L Tick s = SysTick_Handler L s"
| "kernel_step L Switch s = Some (PendSV_Handler L s)"

fun kernel_run :: "symbols \<Rightarrow> kernel_op list \<Rightarrow> machine \<Rightarrow> machine option" where
  "kernel_run L [] s = Some s"
| "kernel_run L (op # ops) s =
     (case kernel_step L op s of None \<Rightarrow> None | Some s' \<Rightarrow> kernel_run L ops s')"

fun op_cells :: "symbols \<Rightarrow> kernel_op \<Rightarrow> machine \<Rightarrow> word32 set" where
  "op_cells L (ThreadInit tcb stack_array stack_size task) s =
     set (word_addrs (stack_top stack_array stack_size - 64) 16) \<union> {stack_pointer_field tcb}"
| "op_cells L Tick s = {next_tcb_addr L}"
| "op_cells L Switch s = save_cells L s \<union> {current_tcb_addr L}"

fun apart :: "symbols \<Rightarrow> word32 set \<Rightarrow> kernel_op list \<Rightarrow> machine \<Rightarrow> bool" where
  "apart L C [] s = True"
| "apart L C (op # ops) s =
     (op_cells L op s \<inter> C = {} \<and>
      (case kernel_step L op s of None \<Rightarrow> True | Some s' \<Rightarrow> apart L C ops s'))"

text \<open>
  \<open>buffer_cell stack_array i\<close> is the address of \<open>stack_array[i]\<close>; the buffer is the
  \<open>stack_size\<close> words from \<open>stack_array\<close> on; \<open>written_words\<close> are the addresses of
  \<open>stack_array[stack_size - 16]\<close> .. \<open>stack_array[stack_size - 1]\<close>, in ascending order.
\<close>

definition buffer_cell :: "word32 \<Rightarrow> int \<Rightarrow> word32" where
  "buffer_cell stack_array i = stack_array + 4 * word_of_int i"

definition buffer_cells :: "word32 \<Rightarrow> int \<Rightarrow> word32 set" where
  "buffer_cells stack_array stack_size = set (word_addrs stack_array (nat stack_size))"

definition written_words :: "word32 \<Rightarrow> int \<Rightarrow> word32 list" where
  "written_words stack_array stack_size =
     map (\<lambda>k. buffer_cell stack_array (stack_size - 16 + int k)) [0..<16]"

text \<open>
  Executions of the two handlers in any order. \<open>handler_trace\<close> gives the states after
  each handler (\<open>None\<close> when a tick dereferences a null \<open>current_tcb\<close>);
  \<open>sentinel_skips\<close> counts the executions of the trampoline that find \<open>current_tcb\<close>
  null and skip the save; \<open>next_tcb_in_ring L ts\<close> says that whenever the trampoline runs,
  the value it reads from \<open>next_tcb\<close> (the global's content when the handler reaches
  \<open>LoadNewContext\<close>) is a TCB of \<open>ts\<close>.
\<close>

datatype handler = SysTick | PendSV

fun handler_step :: "symbols \<Rightarrow> handler \<Rightarrow> machine \<Rightarrow> machine option" where
  "handler_step L SysTick s = SysTick_Handler L s"
| "handler_step L PendSV s = Some (PendSV_Handler L s)"

fun handler_trace :: "symbols \<Rightarrow> handler list \<Rightarrow> machine \<Rightarrow> machine list option" where
  "handler_trace L [] s = Some []"
| "handler_trace L (h # hs) s =
     (case handler_step L h s of
        None \<Rightarrow> None
      | Some s' \<Rightarrow> (case handler_trace L hs s' of None \<Rightarrow> None | Some tr \<Rightarrow> Some (s' # tr)))"

fun sentinel_skips :: "symbols \<Rightarrow> handler list \<Rightarrow> machine \<Rightarrow> nat" where
  "sentinel_skips L [] s = 0"
| "sentinel_skips L (h # hs) s =
     (if h = PendSV \<and> current_tcb L s = 0 then 1 else 0) +
     (case handler_step L h s of None \<Rightarrow> 0 | Some s' \<Rightarrow> sentinel_skips L hs s')"

fun next_tcb_in_ring :: "symbols \<Rightarrow> word32 list \<Rightarrow> handler list \<Rightarrow> machine \<Rightarrow> bool" where
  "next_tcb_in_ring L ts [] s = True"
| "next_tcb_in_ring L ts (h # hs) s =
     ((h = PendSV \<longrightarrow> next_tcb L (save_context L s) \<in> set ts) \<and>
      (case handler_step L h s of None \<Rightarrow> True | Some s' \<Rightarrow> next_tcb_in_ring L ts hs s'))"

section \<open>An example configuration\<close>

text \<open>
  The set-up of the source's usage comment: three TCBs \<open>t1\<close>, \<open>t2\<close>, \<open>t3\<close>, three stacks
  of \<open>STACK_SIZE\<close> words, at concrete addresses in RAM, and three entry functions in flash.
\<close>

definition usage_symbols :: symbols where
  "usage_symbols = \<lparr>current_tcb_addr = 0x20000000, next_tcb_addr = 0x20000004\<rparr>"

definition tcb_t1 :: word32 where "tcb_t1 = 0x20000010"
definition tcb_t2 :: word32 where "tcb_t2 = 0x20000018"
definition tcb_t3 :: word32 where "tcb_t3 = 0x20000020"

definition stack_s1 :: word32 where "stack_s1 = 0x20001000"
definition stack_s2 :: word32 where "stack_s2 = 0x20002000"
definition stack_s3 :: word32 where "stack_s3 = 0x20003000"

definition STACK_SIZE :: int where "STACK_SIZE = 64"

definition task_1 :: word32 where "task_1 = 0x08000101"
definition task_2 :: word32 where "task_2 = 0x08000201"
definition task_3 :: word32 where "task_3 = 0x08000301"

definition reset_machine :: machine where
  "reset_machine = \<lparr>regs = (\<lambda>_. 0), PSP = 0, PC = 0, xPSR = 0, mem = (\<lambda>_. 0), ICSR = 0\<rparr>"

text \<open>Thread \<open>t1\<close> running, with a recognisable pattern in R4..R11, and \<open>t2\<close> chosen next.\<close>

definition t1_running :: machine where
  "t1_running =
     reset_machine\<lparr>
       regs := (\<lambda>_. 0)(R4 := 0x44, R5 := 0x55, R6 := 0x66, R7 := 0x77,
                         R8 := 0x88, R9 := 0x99, R10 := 0xAA, R11 := 0xBB),
       PSP := 0x200010E0,
       mem := (\<lambda>_. 0)(0x20000000 := tcb_t1, 0x20000004 := tcb_t2,
                         next_field tcb_t1 := tcb_t2, next_field tcb_t2 := tcb_t3,
                         next_field tcb_t3 := tcb_t1,
                         stack_pointer_field tcb_t2 := 0x200020C0,
                         stack_pointer_field tcb_t3 := 0x200030C0)\<rparr>"

text \<open>
  The state after the set-up of the usage comment: the ring \<open>t1 \<rightarrow> t2 \<rightarrow> t3 \<rightarrow> t1\<close>
  is chained, \<open>next_tcb\<close> is the first thread, \<open>current_tcb\<close> is still null, and each
  thread has been through \<open>OS_ThreadInit\<close>.
\<close>

definition usage_boot :: machine where
  "usage_boot =
     (let s = reset_machine\<lparr>mem := (\<lambda>_. 0)(next_field tcb_t1 := tcb_t2,
                next_field tcb_t2 := tcb_t3, next_field tcb_t3 := tcb_t1,
                next_tcb_addr usage_symbols := tcb_t1)\<rparr>;
          s = OS_ThreadInit tcb_t1 stack_s1 STACK_SIZE task_1 s;
          s = OS_ThreadInit tcb_t2 stack_s2 STACK_SIZE task_2 s;
          s = OS_ThreadInit tcb_t3 stack_s3 STACK_SIZE task_3 s
      in s)"

text \<open>
  Later: thread \<open>t2\<close> has run since \<open>t1\<close> was switched out (other register values,
  its own stack pointer), and the tick has chosen \<open>t1\<close> again.
\<close>

definition t2_yielding :: machine where
  "t2_yielding =
     (let s1 = PendSV_Handler usage_symbols t1_running
      in s1\<lparr>regs := (\<lambda>_. 0x1234), PSP := 0x200020A0,
             mem := (mem s1)(next_tcb_addr usage_symbols := tcb_t1)\<rparr>)"

text \<open>A ring of the single thread \<open>t1\<close>, running.\<close>

definition solo_running :: machine where
  "solo_running =
     reset_machine\<lparr>
       regs := (\<lambda>_. 0)(R4 := 0x44, R5 := 0x55, R6 := 0x66, R7 := 0x77,
                         R8 := 0x88, R9 := 0x99, R10 := 0xAA, R11 := 0xBB),
       PSP := 0x200010E0,
       mem := (\<lambda>_. 0)(current_tcb_addr usage_symbols := tcb_t1, next_field tcb_t1 := tcb_t1)\<rparr>"

text \<open>The same ring when the tick has returned and the switch is about to run.\<close>

definition solo_ticked :: machine where
  "solo_ticked =
     solo_running\<lparr>
       mem := (mem solo_running)(next_tcb_addr usage_symbols := tcb_t1),
       ICSR := ICSR solo_running OR push_bit 28 1\<rparr>"

section \<open>Basic facts about the instructions\<close>

lemmas usage_defs = usage_symbols_def tcb_t1_def tcb_t2_def tcb_t3_def stack_s1_def stack_s2_def
  stack_s3_def STACK_SIZE_def task_1_def task_2_def task_3_def reset_machine_def
  next_field_def stack_pointer_field_def stack_top_def

lemma bit_set_NZCV_30: "bit (set_NZCV n z c v w) 30 = z"
  by (simp add: set_NZCV_def bit_or_iff bit_and_iff)

lemma flag_Z_CMP0: "flag_Z (CMP_imm r 0 s) = (regs s r = 0)"
  by (simp add: flag_Z_def CMP_imm_def Let_def bit_set_NZCV_30)

lemma CMP_imm_proj [simp]:
  "regs (CMP_imm r i s) = regs s" "mem (CMP_imm r i s) = mem s" "PSP (CMP_imm r i s) = PSP s"
  "PC (CMP_imm r i s) = PC s" "ICSR (CMP_imm r i s) = ICSR s"
  by (simp_all add: CMP_imm_def Let_def)

lemma store_regs_proj [simp]:
  "regs (store_regs a rs s) = regs s" "PSP (store_regs a rs s) = PSP s"
  "PC (store_regs a rs s) = PC s" "ICSR (store_regs a rs s) = ICSR s"
  "xPSR (store_regs a rs s) = xPSR s"
  by (induction a rs s rule: store_regs.induct; simp)+

lemma mem_store_regs: "mem (store_regs a rs s) = write_words (mem s) a (map (regs s) rs)"
  by (induction a rs s rule: store_regs.induct) (simp_all add: fun_upd_def)

lemma load_regs_proj [simp]:
  "mem (load_regs a rs s) = mem s" "PSP (load_regs a rs s) = PSP s"
  "PC (load_regs a rs s) = PC s" "ICSR (load_regs a rs s) = ICSR s"
  "xPSR (load_regs a rs s) = xPSR s"
  by (induction a rs s rule: load_regs.induct; simp)+

lemma regs_load_regs_other: "r \<notin> set rs \<Longrightarrow> regs (load_regs a rs s) r = regs s r"
  by (induction a rs s rule: load_regs.induct) auto

lemma regs_load_regs_map:
  "distinct rs \<Longrightarrow> map (regs (load_regs a rs s)) rs = read_words (mem s) a (length rs)"
proof (induction a rs s rule: load_regs.induct)
  case (1 a s)
  then show ?case by (simp add: read_words_def)
next
  case (2 a r rs s)
  then show ?case by (simp add: read_words_def regs_load_regs_other)
qed

lemma distinct_R4_R11: "distinct R4_R11"
  by (simp add: R4_R11_def)

lemma length_R4_R11: "length R4_R11 = 8"
  by (simp add: R4_R11_def)

subsection \<open>The save phase\<close>

lemma save_context_null:
  assumes "current_tcb L s = 0"
  shows "mem (save_context L s) = mem s" "PSP (save_context L s) = PSP s"
    "regs (save_context L s) = (regs s)(R1 := current_tcb_addr L, R2 := 0)"
    "PC (save_context L s) = PC s" "ICSR (save_context L s) = ICSR s"
  using assms
  by (simp_all add: save_context_def Let_def flag_Z_CMP0 LDR_lit_def LDR_reg_def current_tcb_def)

lemma save_context_nonnull:
  assumes "current_tcb L s \<noteq> 0"
  shows "mem (save_context L s) =
           (write_words (mem s) (PSP s - 32) (map (regs s) R4_R11))
             (stack_pointer_field (current_tcb L s) := PSP s - 32)"
    "PSP (save_context L s) = PSP s"
    "regs (save_context L s) =
       (regs s)(R1 := current_tcb_addr L, R2 := current_tcb L s, R0 := PSP s - 32)"
    "PC (save_context L s) = PC s" "ICSR (save_context L s) = ICSR s"
  using assms
  by (simp_all add: save_context_def Let_def flag_Z_CMP0 LDR_lit_def LDR_reg_def current_tcb_def
      MRS_PSP_def STMDB_wb_def STR_reg_def mem_store_regs length_R4_R11 stack_pointer_field_def
      R4_R11_def fun_upd_twist)

lemma save_context_R1: "regs (save_context L s) R1 = current_tcb_addr L"
  by (cases "current_tcb L s = 0") (simp_all add: save_context_null save_context_nonnull)

subsection \<open>The restore phase\<close>

lemma LoadNewContext_mem:
  "mem (LoadNewContext L s) = (mem s)(regs s R1 := next_tcb L s)"
  by (simp add: LoadNewContext_def Let_def LDR_lit_def LDR_reg_def STR_reg_def LDMIA_wb_def
      MSR_PSP_def ISB_def MOV_def BX_def next_tcb_def)

lemma LoadNewContext_PSP:
  "PSP (LoadNewContext L s) =
     mem (LoadNewContext L s) (stack_pointer_field (next_tcb L s)) + 32"
  by (simp add: LoadNewContext_def Let_def LDR_lit_def LDR_reg_def STR_reg_def LDMIA_wb_def
      MSR_PSP_def ISB_def MOV_def BX_def length_R4_R11 stack_pointer_field_def next_tcb_def)

lemma LoadNewContext_R4_R11:
  "map (regs (LoadNewContext L s)) R4_R11 =
     read_words (mem (LoadNewContext L s))
       (mem (LoadNewContext L s) (stack_pointer_field (next_tcb L s))) 8"
proof -
  let ?s1 = "STR_reg R4 R1 (LDR_reg R4 R3 (LDR_lit R3 (next_tcb_addr L) s))"
  let ?s2 = "LDR_reg R0 R4 ?s1"
  let ?a = "regs ?s2 R0"
  have m: "mem (LoadNewContext L s) = mem ?s2"
    by (simp add: LoadNewContext_def Let_def LDR_lit_def LDR_reg_def STR_reg_def LDMIA_wb_def
      MSR_PSP_def ISB_def MOV_def BX_def)
  have a: "?a = mem ?s2 (stack_pointer_field (next_tcb L s))"
    by (simp add: LDR_lit_def LDR_reg_def STR_reg_def stack_pointer_field_def next_tcb_def)
  have r: "map (regs (LoadNewContext L s)) R4_R11 = map (regs (load_regs ?a R4_R11 ?s2)) R4_R11"
    by (simp add: LoadNewContext_def Let_def LDMIA_wb_def MSR_PSP_def ISB_def MOV_def BX_def
        LDR_lit_def[of R0] R4_R11_def)
  show ?thesis
    unfolding r m a [symmetric]
    using regs_load_regs_map [OF distinct_R4_R11, of ?a ?s2] by (simp add: length_R4_R11)
qed

lemma LoadNewContext_misc:
  "PC (LoadNewContext L s) = 0xFFFFFFFD" "regs (LoadNewContext L s) LR = 0xFFFFFFFD"
  "ICSR (LoadNewContext L s) = ICSR s"
  by (simp_all add: LoadNewContext_def Let_def LDR_lit_def LDR_reg_def STR_reg_def LDMIA_wb_def
      MSR_PSP_def ISB_def MOV_def BX_def)

section \<open>OS_ThreadInit builds the sixteen-word frame\<close>

lemma push_eq: "push v (sp, m) = (sp - 4, m(sp - 4 := v))"
  by (simp add: push_def)

lemma word_addrs_8: "word_addrs a 8 = [a, a + 4, a + 8, a + 12, a + 16, a + 20, a + 24, a + 28]"
  by (simp add: eval_nat_numeral)

lemma word_addrs_16:
  "word_addrs a 16 = [a, a + 4, a + 8, a + 12, a + 16, a + 20, a + 24, a + 28,
     a + 32, a + 36, a + 40, a + 44, a + 48, a + 52, a + 56, a + 60]"
  by (simp add: eval_nat_numeral)

lemma OS_ThreadInit_mem:
  "mem (OS_ThreadInit tcb sa n task s) =
     (let tp = stack_top sa n
      in (mem s)(tp - 4 := 0x01000000, tp - 8 := task, tp - 12 := 0, tp - 16 := 0,
           tp - 20 := 0, tp - 24 := 0, tp - 28 := 0, tp - 32 := 0, tp - 36 := 0, tp - 40 := 0,
           tp - 44 := 0, tp - 48 := 0, tp - 52 := 0, tp - 56 := 0, tp - 60 := 0, tp - 64 := 0,
           stack_pointer_field tcb := tp - 64))"
  by (simp add: OS_ThreadInit_def push_eq Let_def stack_top_def)

lemma OS_ThreadInit_proj [simp]:
  "regs (OS_ThreadInit tcb sa n task s) = regs s" "PSP (OS_ThreadInit tcb sa n task s) = PSP s"
  "PC (OS_ThreadInit tcb sa n task s) = PC s" "xPSR (OS_ThreadInit tcb sa n task s) = xPSR s"
  "ICSR (OS_ThreadInit tcb sa n task s) = ICSR s"
  by (simp_all add: OS_ThreadInit_def Let_def)

lemma read_words_upd_other:
  "x \<notin> set (word_addrs a n) \<Longrightarrow> read_words (m(x := v)) a n = read_words m a n"
  by (auto simp: read_words_def)

lemma frame_chain_read:
  "read_words ((m::word32 \<Rightarrow> word32)(tp - 4 := 0x01000000, tp - 8 := task, tp - 12 := 0,
      tp - 16 := 0, tp - 20 := 0, tp - 24 := 0, tp - 28 := 0, tp - 32 := 0, tp - 36 := 0,
      tp - 40 := 0, tp - 44 := 0, tp - 48 := 0, tp - 52 := 0, tp - 56 := 0, tp - 60 := 0,
      tp - 64 := 0)) (tp - 64) 16 =
   [0, 0, 0, 0, 0, 0, 0, 0, 0, 0, 0, 0, 0, 0, task, 0x01000000]"
  by (simp add: read_words_def word_addrs_16)

lemma OS_ThreadInit_readback:
  assumes "stack_pointer_field tcb \<notin> set (word_addrs (stack_top sa n - 64) 16)"
  shows "read_words (mem (OS_ThreadInit tcb sa n task s)) (stack_top sa n - 64) 16 =
     [0, 0, 0, 0, 0, 0, 0, 0, 0, 0, 0, 0, 0, 0, task, 0x01000000]"
  by (simp only: OS_ThreadInit_mem Let_def read_words_upd_other [OF assms] frame_chain_read)

text \<open>
  Claim C1. For every TCB, stack buffer, capacity and entry function, \<open>OS_ThreadInit\<close>
  starts at \<open>tp\<close>, one past the last word of the buffer, and stores downwards: the status
  word \<open>0x01000000\<close> (Thumb bit) at \<open>tp - 4\<close>, the entry address at \<open>tp - 8\<close>, zero for
  LR at \<open>tp - 12\<close>, zero for R12, R3, R2, R1, R0 at \<open>tp - 16\<close> .. \<open>tp - 32\<close>, zero for
  R11 .. R4 at \<open>tp - 36\<close> .. \<open>tp - 64\<close>; then it stores the final pointer \<open>tp - 64\<close> into
  the TCB's \<open>stack_pointer\<close> field, and touches nothing but memory. Read upwards from the
  stored pointer (when the TCB does not lie inside its own frame), the sixteen words are
  R4..R11, R0..R3, R12, LR, PC, status register.
\<close>

theorem OS_ThreadInit_frame:
  "(let tp = stack_top stack_array stack_size;
        s' = OS_ThreadInit tcb stack_array stack_size task s
    in mem s' =
         (mem s)(tp - 4 := 0x01000000, tp - 8 := task, tp - 12 := 0,
            tp - 16 := 0, tp - 20 := 0, tp - 24 := 0, tp - 28 := 0, tp - 32 := 0,
            tp - 36 := 0, tp - 40 := 0, tp - 44 := 0, tp - 48 := 0,
            tp - 52 := 0, tp - 56 := 0, tp - 60 := 0, tp - 64 := 0,
            stack_pointer_field tcb := tp - 64) \<and>
       mem s' (stack_pointer_field tcb) = tp - 64 \<and>
       (stack_pointer_field tcb \<notin> set (word_addrs (tp - 64) 16) \<longrightarrow>
          read_words (mem s') (mem s' (stack_pointer_field tcb)) 16 =
            [0, 0, 0, 0, 0, 0, 0, 0, 0, 0, 0, 0, 0, 0, task, 0x01000000]) \<and>
       regs s' = regs s \<and> PSP s' = PSP s \<and> PC s' = PC s \<and> xPSR s' = xPSR s \<and>
       ICSR s' = ICSR s)"
proof -
  have sp: "mem (OS_ThreadInit tcb stack_array stack_size task s) (stack_pointer_field tcb) =
      stack_top stack_array stack_size - 64"
    by (simp add: OS_ThreadInit_mem Let_def)
  show ?thesis
    unfolding Let_def
    apply (intro conjI impI)
    subgoal using OS_ThreadInit_mem [of tcb stack_array stack_size task s] by (simp only: Let_def)
    subgoal by (rule sp)
    subgoal premises p using OS_ThreadInit_readback [OF p, of task s] by (simp only: sp)
    subgoal by simp
    subgoal by simp
    subgoal by simp
    subgoal by simp
    subgoal by simp
    done
qed

theorem OS_ThreadInit_frame_witness:
  "read_words (mem (OS_ThreadInit tcb_t1 stack_s1 STACK_SIZE task_1 reset_machine))
       0x200010C0 16 =
     [0, 0, 0, 0, 0, 0, 0, 0, 0, 0, 0, 0, 0, 0, 0x08000101, 0x01000000] \<and>
   mem (OS_ThreadInit tcb_t1 stack_s1 STACK_SIZE task_1 reset_machine) 0x20000010 = 0x200010C0"
proof -
  let ?s' = "OS_ThreadInit tcb_t1 stack_s1 STACK_SIZE task_1 reset_machine"
  have tp: "stack_top stack_s1 STACK_SIZE - 64 = 0x200010C0"
    by (simp add: stack_top_def stack_s1_def STACK_SIZE_def)
  have h: "stack_pointer_field tcb_t1 \<notin> set (word_addrs (stack_top stack_s1 STACK_SIZE - 64) 16)"
    by (simp add: tp stack_pointer_field_def tcb_t1_def word_addrs_16)
  note T = OS_ThreadInit_frame [of stack_s1 STACK_SIZE tcb_t1 task_1 reset_machine,
      unfolded Let_def]
  from T have a: "mem ?s' (stack_pointer_field tcb_t1) = stack_top stack_s1 STACK_SIZE - 64"
    by (elim conjE)
  from T h have b: "read_words (mem ?s') (mem ?s' (stack_pointer_field tcb_t1)) 16 =
      [0, 0, 0, 0, 0, 0, 0, 0, 0, 0, 0, 0, 0, 0, task_1, 0x01000000]"
    by (elim conjE) simp
  from a b show ?thesis
    by (simp add: tp stack_pointer_field_def tcb_t1_def task_1_def)
qed

section \<open>One execution of PendSV_Handler\<close>

text \<open>
  Claim C2. In every machine state with a non-null \<open>current_tcb\<close>, one execution of
  \<open>PendSV_Handler\<close> (1) stores R4..R11 at the eight words below the process stack
  pointer, R4 lowest, and writes the decremented pointer into
  \<open>current_tcb->stack_pointer\<close>; (2) then copies \<open>next_tcb\<close> into \<open>current_tcb\<close>;
  (3) then loads the new current TCB's \<open>stack_pointer\<close>, reloads R4..R11 from the eight
  words there in the same order, sets the process stack pointer to the address after
  them, and branches to the exception-return value \<open>0xFFFFFFFD\<close> (thread mode, process
  stack).
\<close>

theorem PendSV_Handler_switch:
  assumes "current_tcb L s \<noteq> 0"
  shows "let cur = current_tcb L s;
             sp_out = PSP s - 32;
             m1 = write_words (mem s) sp_out (map (regs s) R4_R11);
             m2 = m1(stack_pointer_field cur := sp_out);
             nxt = m2 (next_tcb_addr L);
             m3 = m2(current_tcb_addr L := nxt);
             sp_in = m3 (stack_pointer_field nxt);
             s' = PendSV_Handler L s
         in mem s' = m3 \<and> map (regs s') R4_R11 = read_words m3 sp_in 8 \<and>
            PSP s' = sp_in + 32 \<and> PC s' = 0xFFFFFFFD \<and> regs s' LR = 0xFFFFFFFD \<and>
            ICSR s' = ICSR s"
proof -
  let ?s1 = "save_context L s"
  have m: "mem (PendSV_Handler L s) = (mem ?s1)(current_tcb_addr L := next_tcb L ?s1)"
    by (simp add: PendSV_Handler_def LoadNewContext_mem save_context_R1)
  have m1: "mem ?s1 = (write_words (mem s) (PSP s - 32) (map (regs s) R4_R11))
             (stack_pointer_field (current_tcb L s) := PSP s - 32)"
    by (rule save_context_nonnull(1) [OF assms])
  show ?thesis
    unfolding Let_def
    apply (intro conjI)
    subgoal by (simp only: m m1 next_tcb_def)
    subgoal using LoadNewContext_R4_R11 [of L ?s1]
      by (simp only: PendSV_Handler_def [symmetric] m m1 next_tcb_def)
    subgoal using LoadNewContext_PSP [of L ?s1]
      by (simp only: PendSV_Handler_def [symmetric] m m1 next_tcb_def)
    subgoal by (simp add: PendSV_Handler_def LoadNewContext_misc)
    subgoal by (simp add: PendSV_Handler_def LoadNewContext_misc)
    subgoal by (simp add: PendSV_Handler_def LoadNewContext_misc save_context_nonnull [OF assms])
    done
qed

theorem PendSV_Handler_switch_witness:
  "mem (PendSV_Handler usage_symbols t1_running) 0x200010C0 = 0x44 \<and>
   mem (PendSV_Handler usage_symbols t1_running) 0x200010DC = 0xBB \<and>
   mem (PendSV_Handler usage_symbols t1_running) tcb_t1 = 0x200010C0 \<and>
   current_tcb usage_symbols (PendSV_Handler usage_symbols t1_running) = tcb_t2 \<and>
   PSP (PendSV_Handler usage_symbols t1_running) = 0x200020E0 \<and>
   PC (PendSV_Handler usage_symbols t1_running) = 0xFFFFFFFD"
proof -
  have h: "current_tcb usage_symbols t1_running \<noteq> 0"
    by (simp add: current_tcb_def usage_symbols_def t1_running_def reset_machine_def tcb_t1_def
        tcb_t2_def tcb_t3_def next_field_def stack_pointer_field_def)
  show ?thesis
    using PendSV_Handler_switch [OF h]
    by (simp add: Let_def current_tcb_def usage_symbols_def t1_running_def reset_machine_def
        tcb_t1_def tcb_t2_def tcb_t3_def next_field_def stack_pointer_field_def R4_R11_def)
qed

section \<open>Frame conditions of the handlers\<close>

lemma length_word_addrs [simp]: "length (word_addrs a n) = n"
  by (induction n arbitrary: a) simp_all

lemma write_words_other:
  "x \<notin> set (word_addrs a (length vs)) \<Longrightarrow> write_words m a vs x = m x"
  by (induction vs arbitrary: m a) auto

lemma read_write_words:
  "distinct (word_addrs a (length vs)) \<Longrightarrow> read_words (write_words m a vs) a (length vs) = vs"
proof (induction vs arbitrary: m a)
  case Nil
  then show ?case by (simp add: read_words_def)
next
  case (Cons v vs)
  from Cons.prems have d: "a \<notin> set (word_addrs (a + 4) (length vs))"
    and d': "distinct (word_addrs (a + 4) (length vs))" by simp_all
  have "write_words (m(a := v)) (a + 4) vs a = v"
    using write_words_other [OF d] by simp
  moreover have "read_words (write_words (m(a := v)) (a + 4) vs) (a + 4) (length vs) = vs"
    using Cons.IH [OF d'] .
  ultimately show ?case by (simp add: read_words_def)
qed

lemma distinct_word_addrs_8: "distinct (word_addrs a 8)"
  by (simp add: word_addrs_8)

lemma read_words_cong:
  "(\<And>x. x \<in> set (word_addrs a n) \<Longrightarrow> m x = m' x) \<Longrightarrow> read_words m a n = read_words m' a n"
  by (simp add: read_words_def)

lemma save_context_mem_other:
  "x \<notin> save_cells L s \<Longrightarrow> mem (save_context L s) x = mem s x"
  by (cases "current_tcb L s = 0")
     (simp_all add: save_cells_def save_context_null save_context_nonnull write_words_other
        length_R4_R11)

lemma PendSV_Handler_mem:
  "mem (PendSV_Handler L s) =
     (mem (save_context L s))(current_tcb_addr L := next_tcb L (save_context L s))"
  by (simp add: PendSV_Handler_def LoadNewContext_mem save_context_R1)

lemma PendSV_Handler_current: 
  "current_tcb L (PendSV_Handler L s) = next_tcb L (save_context L s)"
  by (simp add: current_tcb_def PendSV_Handler_mem)

lemma PendSV_Handler_mem_other:
  "x \<notin> save_cells L s \<Longrightarrow> x \<noteq> current_tcb_addr L \<Longrightarrow> mem (PendSV_Handler L s) x = mem s x"
  by (simp add: PendSV_Handler_mem save_context_mem_other)

lemma next_tcb_save_context:
  "next_tcb_addr L \<notin> save_cells L s \<Longrightarrow> next_tcb L (save_context L s) = next_tcb L s"
  by (simp add: next_tcb_def save_context_mem_other)

lemma word_addrs_append:
  "word_addrs a (m + n) = word_addrs a m @ word_addrs (a + 4 * of_nat m) n"
  by (induction m arbitrary: a) (simp_all add: algebra_simps)

lemma read_words_16_split: "read_words m a 16 = read_words m a 8 @ read_words m (a + 32) 8"
  using word_addrs_append [of a 8 8] by (simp add: read_words_def)

lemma length_read_words [simp]: "length (read_words m a n) = n"
  by (simp add: read_words_def)

lemma exception_return_frame:
  assumes "PC s = 0xFFFFFFFD"
    and "read_words (mem s) (PSP s) 8 = [r0, r1, r2, r3, r12, lr, pc, psr]"
  shows "exception_return s =
     Some (s\<lparr>regs := (regs s)(R0 := r0, R1 := r1, R2 := r2, R3 := r3, R12 := r12, LR := lr),
             PC := pc, xPSR := psr, PSP := PSP s + 32\<rparr>)"
  using assms by (simp add: exception_return_def read_words_def word_addrs_8 Let_def)

text \<open>
  Claim C3. Let \<open>current_tcb\<close> be null and \<open>next_tcb\<close> point at a TCB whose
  \<open>stack_pointer\<close> field and sixteen-word frame are as \<open>OS_ThreadInit\<close> left them (and
  let the global \<open>current_tcb\<close> and the TCB lie outside that frame, as distinct objects
  do). Then one execution of \<open>PendSV_Handler\<close> stores to no cell but the global
  \<open>current_tcb\<close> (no register goes to any stack, no \<open>stack_pointer\<close> field is
  written), reloads R4..R11 as zero from the frame, and the exception return resumes at
  the thread's entry function with R4..R11, R0..R3, R12 and LR zero, the Thumb bit set
  and the process stack pointer at the top of the thread's stack.
\<close>

theorem PendSV_Handler_first_switch:
  assumes init: "\<forall>x \<in> insert (stack_pointer_field tcb)
                      (set (word_addrs (stack_top stack_array stack_size - 64) 16)).
                  mem s x = mem (OS_ThreadInit tcb stack_array stack_size task s0) x"
    and cur: "current_tcb L s = 0"
    and nxt: "next_tcb L s = tcb"
    and sep1: "stack_pointer_field tcb \<notin> set (word_addrs (stack_top stack_array stack_size - 64) 16)"
    and sep2: "current_tcb_addr L \<notin> set (word_addrs (stack_top stack_array stack_size - 64) 16)"
    and sep3: "current_tcb_addr L \<noteq> stack_pointer_field tcb"
  shows "mem (PendSV_Handler L s) = (mem s)(current_tcb_addr L := tcb) \<and>
         map (regs (PendSV_Handler L s)) R4_R11 = [0, 0, 0, 0, 0, 0, 0, 0] \<and>
         PSP (PendSV_Handler L s) = stack_top stack_array stack_size - 32 \<and>
         (\<exists>s'. exception_return (PendSV_Handler L s) = Some s' \<and>
               PC s' = task \<and>
               map (regs s') R4_R11 = [0, 0, 0, 0, 0, 0, 0, 0] \<and>
               map (regs s') [R0, R1, R2, R3, R12, LR] = [0, 0, 0, 0, 0, 0] \<and>
               xPSR s' = 0x01000000 \<and>
               PSP s' = stack_top stack_array stack_size \<and>
               mem s' = (mem s)(current_tcb_addr L := tcb))"
proof -
  define a where "a = stack_top stack_array stack_size - 64"
  let ?h = "PendSV_Handler L s"
  have tp: "stack_top stack_array stack_size = a + 64"
    by (simp add: a_def)
  have m: "mem ?h = (mem s)(current_tcb_addr L := tcb)"
    using nxt by (simp add: PendSV_Handler_mem save_context_null [OF cur] next_tcb_def)
  have sp: "mem s (stack_pointer_field tcb) = a"
    using init by (simp add: a_def OS_ThreadInit_mem Let_def)
  have "read_words (mem s) a 16 =
      read_words (mem (OS_ThreadInit tcb stack_array stack_size task s0)) a 16"
    using init by (intro read_words_cong) (simp add: a_def)
  then have fr: "read_words (mem s) a 16 =
      [0, 0, 0, 0, 0, 0, 0, 0, 0, 0, 0, 0, 0, 0, task, 0x01000000]"
    unfolding a_def by (simp only: OS_ThreadInit_readback [OF sep1])
  have fr': "read_words (mem ?h) a 16 = [0, 0, 0, 0, 0, 0, 0, 0, 0, 0, 0, 0, 0, 0, task, 0x01000000]"
    unfolding m using read_words_upd_other [OF sep2] fr by (simp only: a_def)
  have sp': "mem ?h (stack_pointer_field tcb) = a"
    using sep3 by (simp add: m sp)
  have nx: "next_tcb L (save_context L s) = tcb"
    using nxt by (simp add: next_tcb_def save_context_null [OF cur])
  have r: "map (regs ?h) R4_R11 = read_words (mem ?h) a 8"
    using LoadNewContext_R4_R11 [of L "save_context L s"]
    by (simp only: PendSV_Handler_def [symmetric] nx sp')
  have p: "PSP ?h = a + 32"
    using LoadNewContext_PSP [of L "save_context L s"]
    by (simp only: PendSV_Handler_def [symmetric] nx sp')
  have pc: "PC ?h = 0xFFFFFFFD"
    by (simp add: PendSV_Handler_def LoadNewContext_misc)
  have "read_words (mem ?h) a 8 @ read_words (mem ?h) (a + 32) 8 =
      [0, 0, 0, 0, 0, 0, 0, 0] @ [0, 0, 0, 0, 0, 0, task, 0x01000000]"
    using fr' by (simp only: read_words_16_split append.simps)
  then have "read_words (mem ?h) a 8 = [0, 0, 0, 0, 0, 0, 0, 0] \<and>
      read_words (mem ?h) (a + 32) 8 = [0, 0, 0, 0, 0, 0, task, 0x01000000]"
    by (subst (asm) append_eq_append_conv) simp_all
  then have lo: "read_words (mem ?h) a 8 = [0, 0, 0, 0, 0, 0, 0, 0]"
    and hi: "read_words (mem ?h) (a + 32) 8 = [0, 0, 0, 0, 0, 0, task, 0x01000000]"
    by blast+
  have r0: "map (regs ?h) R4_R11 = [0, 0, 0, 0, 0, 0, 0, 0]"
    unfolding r by (rule lo)
  have r0': "regs ?h R4 = 0" "regs ?h R5 = 0" "regs ?h R6 = 0" "regs ?h R7 = 0"
     "regs ?h R8 = 0" "regs ?h R9 = 0" "regs ?h R10 = 0" "regs ?h R11 = 0"
    using r0 by (simp_all add: R4_R11_def)
  have er: "\<exists>s'. exception_return ?h = Some s' \<and>
               PC s' = task \<and>
               map (regs s') R4_R11 = [0, 0, 0, 0, 0, 0, 0, 0] \<and>
               map (regs s') [R0, R1, R2, R3, R12, LR] = [0, 0, 0, 0, 0, 0] \<and>
               xPSR s' = 0x01000000 \<and>
               PSP s' = a + 64 \<and>
               mem s' = (mem s)(current_tcb_addr L := tcb)"
    using exception_return_frame [OF pc, unfolded p, OF hi]
    by (simp add: p R4_R11_def r0' m)
  from m r0 p er show ?thesis unfolding tp by simp
qed


theorem PendSV_Handler_first_switch_witness:
  "(\<exists>s'. exception_return (PendSV_Handler usage_symbols usage_boot) = Some s' \<and>
         PC s' = task_1 \<and> map (regs s') R4_R11 = [0, 0, 0, 0, 0, 0, 0, 0]) \<and>
   mem (PendSV_Handler usage_symbols usage_boot) =
     (mem usage_boot)(current_tcb_addr usage_symbols := tcb_t1)"
proof -
  have tp: "stack_top stack_s1 STACK_SIZE - 64 = 0x200010C0"
    by (simp add: usage_defs)
  have init: "\<forall>x \<in> insert (stack_pointer_field tcb_t1)
                      (set (word_addrs (stack_top stack_s1 STACK_SIZE - 64) 16)).
      mem usage_boot x = mem (OS_ThreadInit tcb_t1 stack_s1 STACK_SIZE task_1 reset_machine) x"
    unfolding tp by (simp add: usage_boot_def word_addrs_16 OS_ThreadInit_mem Let_def usage_defs)
  have cur: "current_tcb usage_symbols usage_boot = 0"
    by (simp add: current_tcb_def usage_boot_def OS_ThreadInit_mem Let_def usage_defs)
  have nxt: "next_tcb usage_symbols usage_boot = tcb_t1"
    by (simp add: next_tcb_def usage_boot_def OS_ThreadInit_mem Let_def usage_defs)
  have sep1: "stack_pointer_field tcb_t1 \<notin> set (word_addrs (stack_top stack_s1 STACK_SIZE - 64) 16)"
    unfolding tp by (simp add: word_addrs_16 usage_defs)
  have sep2: "current_tcb_addr usage_symbols \<notin> set (word_addrs (stack_top stack_s1 STACK_SIZE - 64) 16)"
    unfolding tp by (simp add: word_addrs_16 usage_defs)
  have sep3: "current_tcb_addr usage_symbols \<noteq> stack_pointer_field tcb_t1"
    by (simp add: usage_defs)
  note T = PendSV_Handler_first_switch [OF init cur nxt sep1 sep2 sep3]
  from T have m: "mem (PendSV_Handler usage_symbols usage_boot) =
     (mem usage_boot)(current_tcb_addr usage_symbols := tcb_t1)"
    by (rule conjunct1)
  from T have "\<exists>s'. exception_return (PendSV_Handler usage_symbols usage_boot) = Some s' \<and>
         PC s' = task_1 \<and> map (regs s') R4_R11 = [0, 0, 0, 0, 0, 0, 0, 0]"
    by (elim conjE exE) (intro exI conjI; assumption)
  with m show ?thesis by (rule conjI [rotated])
qed

lemma bit_PENDSVSET: "bit (push_bit 28 (1::word32)) i \<longleftrightarrow> i = 28"
  by (auto simp only: bit_push_bit_iff bit_1_iff possible_bit_word) simp

lemma bit_OR_PENDSVSET: "bit ((w::word32) OR push_bit 28 1) i \<longleftrightarrow> bit w i \<or> i = 28"
  by (simp only: bit_or_iff bit_PENDSVSET)

lemma SysTick_Handler_Some:
  "current_tcb L s \<noteq> 0 \<Longrightarrow>
   SysTick_Handler L s =
     Some (s\<lparr>mem := (mem s)(next_tcb_addr L := mem s (next_field (current_tcb L s))),
             ICSR := ICSR s OR push_bit 28 1\<rparr>)"
  by (simp add: SysTick_Handler_def Let_def)

text \<open>
  Claim C4. In every state with a non-null \<open>current_tcb\<close>, \<open>SysTick_Handler\<close> returns,
  sets \<open>next_tcb\<close> to \<open>current_tcb->next\<close> and sets the PendSV pending bit (bit 28 of
  ICSR), and changes nothing else: every other ICSR bit, every memory cell other than
  \<open>next_tcb\<close> (so \<open>current_tcb\<close>, every TCB field and every stack word), all
  registers, the process stack pointer, the program counter and the status register are
  as before.
\<close>

theorem SysTick_Handler_effect:
  assumes "current_tcb L s \<noteq> 0" and "current_tcb_addr L \<noteq> next_tcb_addr L"
  shows "\<exists>s'. SysTick_Handler L s = Some s' \<and>
      next_tcb L s' = mem s (next_field (current_tcb L s)) \<and>
      bit (ICSR s') 28 \<and> (\<forall>i. i \<noteq> 28 \<longrightarrow> bit (ICSR s') i = bit (ICSR s) i) \<and>
      (\<forall>a. a \<noteq> next_tcb_addr L \<longrightarrow> mem s' a = mem s a) \<and>
      current_tcb L s' = current_tcb L s \<and>
      regs s' = regs s \<and> PSP s' = PSP s \<and> PC s' = PC s \<and> xPSR s' = xPSR s"
proof -
  let ?s' = "s\<lparr>mem := (mem s)(next_tcb_addr L := mem s (next_field (current_tcb L s))),
             ICSR := ICSR s OR push_bit 28 1\<rparr>"
  have i: "ICSR ?s' = ICSR s OR push_bit 28 1" by simp
  have "bit (ICSR ?s') 28" "\<forall>i. i \<noteq> 28 \<longrightarrow> bit (ICSR ?s') i = bit (ICSR s) i"
    unfolding i bit_OR_PENDSVSET by simp_all
  moreover have "next_tcb L ?s' = mem s (next_field (current_tcb L s))"
    "\<forall>a. a \<noteq> next_tcb_addr L \<longrightarrow> mem ?s' a = mem s a"
    "current_tcb L ?s' = current_tcb L s"
    "regs ?s' = regs s" "PSP ?s' = PSP s" "PC ?s' = PC s" "xPSR ?s' = xPSR s"
    using assms(2) by (simp_all add: next_tcb_def current_tcb_def)
  ultimately show ?thesis
    using SysTick_Handler_Some [OF assms(1)] by blast
qed


theorem SysTick_Handler_effect_witness:
  "\<exists>s'. SysTick_Handler usage_symbols t1_running = Some s' \<and>
      next_tcb usage_symbols s' = tcb_t2 \<and> bit (ICSR s') 28 \<and>
      current_tcb usage_symbols s' = tcb_t1"
proof -
  have cur: "current_tcb usage_symbols t1_running = tcb_t1"
    by (simp add: current_tcb_def t1_running_def usage_defs)
  have h1: "current_tcb usage_symbols t1_running \<noteq> 0"
    unfolding cur by (simp add: usage_defs)
  have h2: "current_tcb_addr usage_symbols \<noteq> next_tcb_addr usage_symbols"
    by (simp add: usage_defs)
  have nx: "mem t1_running (next_field tcb_t1) = tcb_t2"
    by (simp add: t1_running_def usage_defs)
  from SysTick_Handler_effect [OF h1 h2] show ?thesis
    unfolding cur nx by (elim conjE exE) (intro exI conjI; assumption)
qed

section \<open>Round robin\<close>

lemma layout_ok_globals: "layout_ok L ts \<Longrightarrow> current_tcb_addr L \<noteq> next_tcb_addr L"
  by (simp add: layout_ok_def kernel_cells_def)

lemma layout_ok_fields:
  assumes "layout_ok L ts" "t \<in> set ts"
  shows "stack_pointer_field t \<noteq> current_tcb_addr L" "stack_pointer_field t \<noteq> next_tcb_addr L"
    "next_field t \<noteq> current_tcb_addr L" "next_field t \<noteq> next_tcb_addr L" "t \<noteq> 0"
proof -
  from assms(2) have i: "stack_pointer_field t \<in> stack_pointer_field ` set ts"
    "next_field t \<in> next_field ` set ts" by simp_all
  from assms(1) have "current_tcb_addr L \<notin> stack_pointer_field ` set ts"
    "next_tcb_addr L \<notin> stack_pointer_field ` set ts"
    "current_tcb_addr L \<notin> next_field ` set ts"
    "next_tcb_addr L \<notin> next_field ` set ts" "0 \<notin> set ts"
    by (simp_all add: layout_ok_def kernel_cells_def)
  with i assms(2) show "stack_pointer_field t \<noteq> current_tcb_addr L"
    "stack_pointer_field t \<noteq> next_tcb_addr L"
    "next_field t \<noteq> current_tcb_addr L" "next_field t \<noteq> next_tcb_addr L" "t \<noteq> 0"
    by metis+
qed

lemma layout_ok_sp_next:
  assumes "layout_ok L ts" "t \<in> set ts" "u \<in> set ts"
  shows "stack_pointer_field t \<noteq> next_field u"
proof -
  from assms(2,3) have i: "stack_pointer_field t \<in> stack_pointer_field ` set ts"
    "next_field u \<in> next_field ` set ts" by simp_all
  from assms(1) have "stack_pointer_field ` set ts \<inter> next_field ` set ts = {}"
    by (simp add: layout_ok_def kernel_cells_def)
  with i show ?thesis by (metis disjoint_iff)
qed

lemma kernel_cells_mem:
  "current_tcb_addr L \<in> set (kernel_cells L ts)" "next_tcb_addr L \<in> set (kernel_cells L ts)"
  "t \<in> set ts \<Longrightarrow> stack_pointer_field t \<in> set (kernel_cells L ts)"
  "t \<in> set ts \<Longrightarrow> next_field t \<in> set (kernel_cells L ts)"
  by (simp_all add: kernel_cells_def)

lemma stack_clearD:
  "stack_clear L ts a \<Longrightarrow> x \<in> set (kernel_cells L ts) \<Longrightarrow> x \<notin> set (word_addrs a 8)"
  by (auto simp add: stack_clear_def)

lemma closed_ring_next_in:
  assumes "closed_ring m ts" "t \<in> set ts"
  shows "m (next_field t) \<in> set ts"
proof -
  from assms(2) have "m (next_field t) \<in> set (map (\<lambda>t. m (next_field t)) ts)" by simp
  also have "\<dots> = set (rotate1 ts)" using assms(1) by (simp add: closed_ring_def)
  finally show ?thesis by simp
qed

lemma closed_ring_cong:
  assumes "closed_ring m ts" "\<And>t. t \<in> set ts \<Longrightarrow> m' (next_field t) = m (next_field t)"
  shows "closed_ring m' ts"
proof -
  have "map (\<lambda>t. m' (next_field t)) ts = map (\<lambda>t. m (next_field t)) ts"
    using assms(2) by simp
  with assms(1) show ?thesis by (simp add: closed_ring_def)
qed

lemma stack_pointer_field_inj [simp]: "stack_pointer_field t = stack_pointer_field u \<longleftrightarrow> t = u"
  by (simp add: stack_pointer_field_def)

lemma write_words_in:
  "x \<in> set (word_addrs a (length vs)) \<Longrightarrow> write_words m a vs x = write_words m' a vs x"
proof (induction vs arbitrary: m m' a)
  case Nil
  then show ?case by simp
next
  case (Cons w ws)
  show ?case
  proof (cases "x \<in> set (word_addrs (a + 4) (length ws))")
    case True
    then have "write_words (m(a := w)) (a + 4) ws x = write_words (m'(a := w)) (a + 4) ws x"
      by (rule Cons.IH)
    then show ?thesis by (simp only: write_words.simps)
  next
    case False
    with Cons.prems have "x = a" by simp
    with False have "write_words (m(a := w)) (a + 4) ws x = w"
      "write_words (m'(a := w)) (a + 4) ws x = w"
      using write_words_other [of x "a + 4" ws] by simp_all
    then show ?thesis by (simp only: write_words.simps)
  qed
qed

lemma PendSV_Handler_saved_sp:
  assumes "current_tcb L s \<noteq> 0" "current_tcb_addr L \<noteq> stack_pointer_field (current_tcb L s)"
  shows "mem (PendSV_Handler L s) (stack_pointer_field (current_tcb L s)) = PSP s - 32"
  using assms by (simp add: PendSV_Handler_mem save_context_nonnull)

lemma PendSV_Handler_PSP:
  "PSP (PendSV_Handler L s) =
     mem (PendSV_Handler L s) (stack_pointer_field (current_tcb L (PendSV_Handler L s))) + 32"
  using LoadNewContext_PSP [of L "save_context L s"]
  by (simp only: PendSV_Handler_def [symmetric] PendSV_Handler_current)


lemma cycle_sched_inv:
  assumes inv: "sched_inv L ts s"
  shows "\<exists>s'. cycle L s = Some s' \<and> sched_inv L ts s' \<and>
           current_tcb L s' = mem s (next_field (current_tcb L s)) \<and>
           PSP s' = mem s' (stack_pointer_field (current_tcb L s')) + 32 \<and>
           mem s' (stack_pointer_field (current_tcb L s)) = PSP s - 32 \<and>
           read_words (mem s') (PSP s - 32) 8 = map (regs s) R4_R11"
proof -
  define cur where "cur = current_tcb L s"
  define nx where "nx = mem s (next_field cur)"
  from inv have lay: "layout_ok L ts" and ring: "closed_ring (mem s) ts"
    and cur_in: "cur \<in> set ts" and clr: "stack_clear L ts (PSP s - 32)"
    and others: "\<And>t. t \<in> set ts \<Longrightarrow> t \<noteq> cur \<Longrightarrow>
                   stack_clear L ts (mem s (stack_pointer_field t))"
    by (simp_all add: sched_inv_def cur_def)
  note g = layout_ok_globals [OF lay]
  note cf = layout_ok_fields [OF lay cur_in]
  have cur0: "current_tcb L s \<noteq> 0" using cf(5) by (simp add: cur_def)
  define s1 where "s1 = s\<lparr>mem := (mem s)(next_tcb_addr L := nx),
             ICSR := ICSR s OR push_bit 28 1\<rparr>"
  have tick: "SysTick_Handler L s = Some s1"
    using SysTick_Handler_Some [OF cur0] by (simp add: s1_def nx_def cur_def)
  define s2 where "s2 = PendSV_Handler L s1"
  have cyc: "cycle L s = Some s2"
    by (simp add: cycle_def tick s2_def)
  have nx_in: "nx \<in> set ts"
    unfolding nx_def by (rule closed_ring_next_in [OF ring cur_in])
  have cur1: "current_tcb L s1 = cur"
    using g by (simp add: current_tcb_def s1_def cur_def)
  have psp1: "PSP s1 = PSP s" and regs1: "regs s1 = regs s"
    by (simp_all add: s1_def)
  have nxt1: "next_tcb L s1 = nx"
    by (simp add: next_tcb_def s1_def)
  have cells: "save_cells L s1 = set (word_addrs (PSP s - 32) 8) \<union> {stack_pointer_field cur}"
    using cf(5) by (simp add: save_cells_def cur1 psp1)
  have kc: "x \<in> set (kernel_cells L ts) \<Longrightarrow> x \<noteq> stack_pointer_field cur \<Longrightarrow>
      x \<notin> save_cells L s1" for x
    using stack_clearD [OF clr] by (simp add: cells)
  have nxt_cell: "next_tcb_addr L \<notin> save_cells L s1"
    using kc [OF kernel_cells_mem(2)] cf(2) by metis
  have cur2: "current_tcb L s2 = nx"
    unfolding s2_def PendSV_Handler_current next_tcb_save_context [OF nxt_cell] by (rule nxt1)
  have other: "mem s2 x = mem s x"
    if "x \<in> set (kernel_cells L ts)" "x \<noteq> stack_pointer_field cur"
      "x \<noteq> current_tcb_addr L" "x \<noteq> next_tcb_addr L" for x
  proof -
    have "mem s2 x = mem s1 x"
      unfolding s2_def using kc [OF that(1,2)] that(3) by (rule PendSV_Handler_mem_other)
    also have "\<dots> = mem s x" using that(4) by (simp add: s1_def)
    finally show ?thesis .
  qed
  have next_same: "mem s2 (next_field t) = mem s (next_field t)" if "t \<in> set ts" for t
    using other [OF kernel_cells_mem(4) [OF that]] layout_ok_sp_next [OF lay cur_in that]
      layout_ok_fields(3,4) [OF lay that] by metis
  have ring2: "closed_ring (mem s2) ts"
    using ring next_same by (rule closed_ring_cong)
  have sp_cur: "mem s2 (stack_pointer_field cur) = PSP s - 32"
    using PendSV_Handler_saved_sp [of L s1] cf(1,5)
    by (simp add: cur1 psp1 s2_def)
  have sp_other: "mem s2 (stack_pointer_field t) = mem s (stack_pointer_field t)"
    if "t \<in> set ts" "t \<noteq> cur" for t
    using other [OF kernel_cells_mem(3) [OF that(1)]] that(2)
      layout_ok_fields(1,2) [OF lay that(1)] by simp
  have clr_sp: "stack_clear L ts (mem s2 (stack_pointer_field t))"
    if "t \<in> set ts" for t
  proof (cases "t = cur")
    case True
    then show ?thesis using clr by (simp add: sp_cur)
  next
    case False
    then show ?thesis using others [OF that] by (simp add: sp_other [OF that])
  qed
  have psp2: "PSP s2 = mem s2 (stack_pointer_field nx) + 32"
    using PendSV_Handler_PSP [of L s1] by (simp add: s2_def [symmetric] cur2)
  have clr2: "stack_clear L ts (PSP s2 - 32)"
    using clr_sp [OF nx_in] by (simp add: psp2)
  have frame: "read_words (mem s2) (PSP s - 32) 8 = map (regs s) R4_R11"
  proof -
    have "read_words (mem s2) (PSP s - 32) 8 =
        read_words (write_words (mem s) (PSP s - 32) (map (regs s) R4_R11)) (PSP s - 32) 8"
    proof (rule read_words_cong)
      fix x assume x: "x \<in> set (word_addrs (PSP s - 32) 8)"
      have n1: "x \<noteq> stack_pointer_field cur"
        using stack_clearD [OF clr kernel_cells_mem(3) [OF cur_in]] x by metis
      have n2: "x \<noteq> current_tcb_addr L"
        using stack_clearD [OF clr kernel_cells_mem(1)] x by metis
      have n3: "x \<noteq> next_tcb_addr L"
        using stack_clearD [OF clr kernel_cells_mem(2)] x by metis
      have w: "write_words (mem s1) (PSP s - 32) (map (regs s) R4_R11) x =
          write_words (mem s) (PSP s - 32) (map (regs s) R4_R11) x"
        using x by (intro write_words_in) (simp add: length_R4_R11)
      show "mem s2 x = write_words (mem s) (PSP s - 32) (map (regs s) R4_R11) x"
        using n1 n2 cf(5) w
        by (simp add: s2_def PendSV_Handler_mem save_context_nonnull cur1 psp1 regs1)
    qed
    also have "\<dots> = map (regs s) R4_R11"
      using read_write_words [of "PSP s - 32" "map (regs s) R4_R11" "mem s"]
      by (simp add: length_R4_R11 distinct_word_addrs_8)
    finally show ?thesis .
  qed
  have inv2: "sched_inv L ts s2"
    unfolding sched_inv_def using lay ring2 nx_in clr2 clr_sp by (simp add: cur2)
  from cyc inv2 cur2 psp2 sp_cur frame show ?thesis
    by (simp add: nx_def cur_def)
qed


lemma closed_ring_nth:
  assumes "closed_ring m ts" "i < length ts"
  shows "m (next_field (ts ! i)) = ts ! (Suc i mod length ts)"
proof -
  have "m (next_field (ts ! i)) = map (\<lambda>t. m (next_field t)) ts ! i"
    using assms(2) by simp
  also have "\<dots> = rotate1 ts ! i" using assms(1) by (simp add: closed_ring_def)
  also have "\<dots> = ts ! (Suc i mod length ts)" using assms(2) by (rule nth_rotate1)
  finally show ?thesis .
qed

lemma cycles_sched_inv:
  assumes "sched_inv L ts s" "current_tcb L s = ts ! i" "i < length ts"
  shows "\<exists>s'. cycles L k s = Some s' \<and> sched_inv L ts s' \<and>
           current_tcb L s' = ts ! ((i + k) mod length ts)"
  using assms
proof (induction k arbitrary: s i)
  case 0
  then show ?case by simp
next
  case (Suc k)
  from cycle_sched_inv [OF Suc.prems(1)] obtain s1 where
    c: "cycle L s = Some s1" and inv1: "sched_inv L ts s1"
    and cur1: "current_tcb L s1 = mem s (next_field (current_tcb L s))"
    by (elim exE conjE)
  from Suc.prems(1) have ring: "closed_ring (mem s) ts" by (simp add: sched_inv_def)
  have cur1': "current_tcb L s1 = ts ! (Suc i mod length ts)"
    using closed_ring_nth [OF ring Suc.prems(3)] by (simp add: cur1 Suc.prems(2))
  from Suc.prems(3) have "0 < length ts" by arith
  then have lt: "Suc i mod length ts < length ts"
    by (rule mod_less_divisor)
  from Suc.IH [OF inv1 cur1' lt] obtain s' where
    "cycles L k s1 = Some s'" "sched_inv L ts s'"
    "current_tcb L s' = ts ! ((Suc i mod length ts + k) mod length ts)"
    by (elim exE conjE)
  moreover have "(Suc i mod length ts + k) mod length ts = (i + Suc k) mod length ts"
    by (simp add: mod_add_left_eq)
  ultimately show ?case by (simp add: c)
qed

text \<open>
  Claim C5. For every closed ring \<open>ts\<close> of \<open>N \<ge> 1\<close> TCBs and every thread \<open>T\<close> of
  the ring, from a well-formed scheduling state with \<open>current_tcb = T\<close>, \<open>N\<close> consecutive
  tick-then-switch cycles all return and leave \<open>current_tcb = T\<close> again.
\<close>

theorem round_robin_cycle_closure:
  assumes "sched_inv L ts s" and "current_tcb L s = T"
  shows "\<exists>s'. cycles L (length ts) s = Some s' \<and> current_tcb L s' = T"
proof -
  from assms have "T \<in> set ts" by (simp add: sched_inv_def)
  then obtain i where i: "i < length ts" "ts ! i = T"
    by (auto simp add: in_set_conv_nth)
  from cycles_sched_inv [OF assms(1) _ i(1), of "length ts"] assms(2) i
  show ?thesis by auto
qed

theorem round_robin_cycle_closure_witness:
  "\<exists>s'. cycles usage_symbols 3 t1_running = Some s' \<and> current_tcb usage_symbols s' = tcb_t1"
proof -
  have inv: "sched_inv usage_symbols [tcb_t1, tcb_t2, tcb_t3] t1_running"
    by (simp add: sched_inv_def layout_ok_def kernel_cells_def closed_ring_def stack_clear_def
        current_tcb_def t1_running_def word_addrs_8 usage_defs)
  have cur: "current_tcb usage_symbols t1_running = tcb_t1"
    by (simp add: current_tcb_def t1_running_def usage_defs)
  have l: "length [tcb_t1, tcb_t2, tcb_t3] = 3" by simp
  from round_robin_cycle_closure [OF inv cur] show ?thesis by (simp only: l)
qed

section \<open>Saving and restoring a thread\<close>

lemma PendSV_Handler_R4_R11:
  "map (regs (PendSV_Handler L s)) R4_R11 =
     read_words (mem (PendSV_Handler L s))
       (mem (PendSV_Handler L s) (stack_pointer_field (current_tcb L (PendSV_Handler L s)))) 8"
  using LoadNewContext_R4_R11 [of L "save_context L s"]
  by (simp only: PendSV_Handler_def [symmetric] PendSV_Handler_current)

lemma PendSV_Handler_saved_frame:
  assumes "current_tcb L s \<noteq> 0"
    and "stack_pointer_field (current_tcb L s) \<notin> set (word_addrs (PSP s - 32) 8)"
    and "current_tcb_addr L \<notin> set (word_addrs (PSP s - 32) 8)"
  shows "read_words (mem (PendSV_Handler L s)) (PSP s - 32) 8 = map (regs s) R4_R11"
proof -
  have "read_words (mem (PendSV_Handler L s)) (PSP s - 32) 8 =
      read_words (write_words (mem s) (PSP s - 32) (map (regs s) R4_R11)) (PSP s - 32) 8"
    by (simp only: PendSV_Handler_mem save_context_nonnull(1) [OF assms(1)]
        read_words_upd_other [OF assms(2)] read_words_upd_other [OF assms(3)])
  also have "\<dots> = map (regs s) R4_R11"
    using read_write_words [of "PSP s - 32" "map (regs s) R4_R11" "mem s"]
    by (simp add: length_R4_R11 distinct_word_addrs_8)
  finally show ?thesis .
qed

text \<open>
  Claim C6. Let thread \<open>T\<close> be switched out by the trampoline in state \<open>s\<close>, and let a
  later execution of the trampoline, entered in state \<open>s2\<close>, switch \<open>T\<close> back in (it
  reads \<open>T\<close> from \<open>next_tcb\<close>). If \<open>T\<close>'s stack image (its eight saved words and its
  \<open>stack_pointer\<close> field) is, when the restore phase starts, as the switch-out left it,
  then R4..R11 after the switch-in are the values they had at the switch-out, and so is
  the process stack pointer. The global \<open>current_tcb\<close> and the TCB are taken outside
  the saved words (distinct objects).
\<close>

theorem save_restore_round_trip:
  assumes cur: "current_tcb L s = T" and T0: "T \<noteq> 0"
    and sep1: "stack_pointer_field T \<notin> set (word_addrs (PSP s - 32) 8)"
    and sep2: "current_tcb_addr L \<notin> set (word_addrs (PSP s - 32) 8)"
    and sep3: "current_tcb_addr L \<noteq> stack_pointer_field T"
    and intact: "\<forall>x \<in> insert (stack_pointer_field T) (set (word_addrs (PSP s - 32) 8)).
                   mem (save_context L s2) x = mem (PendSV_Handler L s) x"
    and nxt: "next_tcb L (save_context L s2) = T"
  shows "map (regs (PendSV_Handler L s2)) R4_R11 = map (regs s) R4_R11 \<and>
         PSP (PendSV_Handler L s2) = PSP s"
proof -
  let ?s1 = "PendSV_Handler L s" and ?s3 = "PendSV_Handler L s2"
  have c0: "current_tcb L s \<noteq> 0" using cur T0 by simp
  have sp1: "mem ?s1 (stack_pointer_field T) = PSP s - 32"
    using PendSV_Handler_saved_sp [of L s] c0 sep3 by (simp add: cur)
  have fr1: "read_words (mem ?s1) (PSP s - 32) 8 = map (regs s) R4_R11"
    using PendSV_Handler_saved_frame [of L s] c0 sep1 sep2 by (simp add: cur)
  have cur3: "current_tcb L ?s3 = T"
    by (simp add: PendSV_Handler_current nxt)
  have m3: "mem ?s3 = (mem (save_context L s2))(current_tcb_addr L := T)"
    by (simp add: PendSV_Handler_mem nxt)
  have sp3: "mem ?s3 (stack_pointer_field T) = PSP s - 32"
    using sep3 intact by (simp add: m3 sp1)
  have "read_words (mem ?s3) (PSP s - 32) 8 = read_words (mem (save_context L s2)) (PSP s - 32) 8"
    unfolding m3 by (rule read_words_upd_other [OF sep2])
  also have "\<dots> = read_words (mem ?s1) (PSP s - 32) 8"
    using intact by (intro read_words_cong) simp
  finally have fr3: "read_words (mem ?s3) (PSP s - 32) 8 = map (regs s) R4_R11"
    by (simp only: fr1)
  have "map (regs ?s3) R4_R11 = map (regs s) R4_R11"
    using PendSV_Handler_R4_R11 [of L s2] by (simp only: cur3 sp3 fr3)
  moreover have "PSP ?s3 = PSP s"
    using PendSV_Handler_PSP [of L s2] by (simp add: cur3 sp3)
  ultimately show ?thesis ..
qed

theorem save_restore_round_trip_witness:
  "map (regs (PendSV_Handler usage_symbols t2_yielding)) R4_R11 =
     [0x44, 0x55, 0x66, 0x77, 0x88, 0x99, 0xAA, 0xBB] \<and>
   PSP (PendSV_Handler usage_symbols t2_yielding) = 0x200010E0"
proof -
  let ?L = usage_symbols
  have cur: "current_tcb ?L t1_running = tcb_t1"
    by (simp add: current_tcb_def t1_running_def usage_defs)
  have T0: "tcb_t1 \<noteq> 0" by (simp add: usage_defs)
  have psp: "PSP t1_running - 32 = 0x200010C0" by (simp add: t1_running_def usage_defs)
  have sep1: "stack_pointer_field tcb_t1 \<notin> set (word_addrs (PSP t1_running - 32) 8)"
    unfolding psp by (simp add: word_addrs_8 usage_defs)
  have sep2: "current_tcb_addr ?L \<notin> set (word_addrs (PSP t1_running - 32) 8)"
    unfolding psp by (simp add: word_addrs_8 usage_defs)
  have sep3: "current_tcb_addr ?L \<noteq> stack_pointer_field tcb_t1" by (simp add: usage_defs)
  have sc1: "save_cells ?L t1_running = set (word_addrs 0x200010C0 8) \<union> {tcb_t1}"
    by (simp add: save_cells_def cur T0 psp stack_pointer_field_def)
  have c1: "next_tcb_addr ?L \<notin> save_cells ?L t1_running"
    unfolding sc1 by (simp add: word_addrs_8 usage_defs)
  have "next_tcb ?L t1_running = tcb_t2"
    by (simp add: next_tcb_def t1_running_def usage_defs)
  then have nx1: "next_tcb ?L (save_context ?L t1_running) = tcb_t2"
    by (simp only: next_tcb_save_context [OF c1])
  have "current_tcb ?L t2_yielding = current_tcb ?L (PendSV_Handler ?L t1_running)"
    by (simp add: t2_yielding_def Let_def current_tcb_def usage_symbols_def)
  then have cur2: "current_tcb ?L t2_yielding = tcb_t2"
    by (simp only: PendSV_Handler_current nx1)
  have T2: "tcb_t2 \<noteq> 0" by (simp add: usage_defs)
  have psp2: "PSP t2_yielding - 32 = 0x20002080" by (simp add: t2_yielding_def Let_def)
  have sc2: "save_cells ?L t2_yielding = set (word_addrs 0x20002080 8) \<union> {tcb_t2}"
    by (simp add: save_cells_def cur2 T2 psp2 stack_pointer_field_def)
  have out: "x \<notin> save_cells ?L t2_yielding \<and> x \<noteq> next_tcb_addr ?L"
    if "x \<in> insert (stack_pointer_field tcb_t1) (set (word_addrs (PSP t1_running - 32) 8))"
    for x
    using that unfolding psp sc2 by (auto simp add: word_addrs_8 usage_defs)
  have intact: "\<forall>x \<in> insert (stack_pointer_field tcb_t1) (set (word_addrs (PSP t1_running - 32) 8)).
                   mem (save_context ?L t2_yielding) x = mem (PendSV_Handler ?L t1_running) x"
  proof
    fix x assume "x \<in> insert (stack_pointer_field tcb_t1) (set (word_addrs (PSP t1_running - 32) 8))"
    from out [OF this] have "mem (save_context ?L t2_yielding) x = mem t2_yielding x"
      and "x \<noteq> next_tcb_addr ?L" by (simp_all add: save_context_mem_other)
    then show "mem (save_context ?L t2_yielding) x = mem (PendSV_Handler ?L t1_running) x"
      by (simp add: t2_yielding_def Let_def)
  qed
  have c2: "next_tcb_addr ?L \<notin> save_cells ?L t2_yielding"
    unfolding sc2 by (simp add: word_addrs_8 usage_defs)
  have "next_tcb ?L t2_yielding = tcb_t1"
    by (simp add: next_tcb_def t2_yielding_def Let_def)
  then have nxt: "next_tcb ?L (save_context ?L t2_yielding) = tcb_t1"
    by (simp only: next_tcb_save_context [OF c2])
  have r: "map (regs t1_running) R4_R11 = [0x44, 0x55, 0x66, 0x77, 0x88, 0x99, 0xAA, 0xBB]"
    by (simp add: t1_running_def R4_R11_def usage_defs)
  have p: "PSP t1_running = 0x200010E0" by (simp add: t1_running_def usage_defs)
  from save_restore_round_trip [OF cur T0 sep1 sep2 sep3 intact nxt]
  show ?thesis by (simp only: r p)
qed

section \<open>The ring of one thread\<close>

lemma write_words_same:
  "read_words m a (length vs) = vs \<Longrightarrow> write_words m a vs = m"
proof (induction vs arbitrary: a)
  case Nil
  then show ?case by simp
next
  case (Cons v vs)
  from Cons.prems have "m a = v" and "read_words m (a + 4) (length vs) = vs"
    by (simp_all add: read_words_def)
  then have "m(a := v) = m" and "write_words m (a + 4) vs = m"
    using Cons.IH by auto
  then show ?case by (simp only: write_words.simps)
qed

lemma cycle_single:
  assumes inv: "sched_inv L [T] s"
  shows "\<exists>s1. SysTick_Handler L s = Some s1 \<and> next_tcb L s1 = T \<and>
           cycle L s = Some (PendSV_Handler L s1) \<and>
           sched_inv L [T] (PendSV_Handler L s1) \<and> steady L T (PendSV_Handler L s1) \<and>
           map (regs (PendSV_Handler L s1)) R4_R11 = map (regs s) R4_R11 \<and>
           PSP (PendSV_Handler L s1) = PSP s \<and>
           current_tcb L (PendSV_Handler L s1) = T"
proof -
  from inv have cur: "current_tcb L s = T" and T0: "T \<noteq> 0"
    and ring: "mem s (next_field T) = T"
    and g: "current_tcb_addr L \<noteq> next_tcb_addr L"
    and n: "next_tcb_addr L \<noteq> stack_pointer_field T"
    by (auto simp add: sched_inv_def layout_ok_def closed_ring_def kernel_cells_def)
  have c0: "current_tcb L s \<noteq> 0" using cur T0 by simp
  define s1 where "s1 = s\<lparr>mem := (mem s)(next_tcb_addr L := mem s (next_field (current_tcb L s))),
             ICSR := ICSR s OR push_bit 28 1\<rparr>"
  have tick: "SysTick_Handler L s = Some s1"
    unfolding s1_def by (rule SysTick_Handler_Some [OF c0])
  have nxt1: "next_tcb L s1 = T"
    by (simp add: s1_def next_tcb_def cur ring)
  let ?s2 = "PendSV_Handler L s1"
  from cycle_sched_inv [OF inv] tick
  have inv2: "sched_inv L [T] ?s2"
    and cur2: "current_tcb L ?s2 = T"
    and psp2: "PSP ?s2 = mem ?s2 (stack_pointer_field (current_tcb L ?s2)) + 32"
    and sp2: "mem ?s2 (stack_pointer_field T) = PSP s - 32"
    and fr2: "read_words (mem ?s2) (PSP s - 32) 8 = map (regs s) R4_R11"
    by (simp_all add: cycle_def cur ring)
  have psp2': "PSP ?s2 = PSP s"
    by (simp add: psp2 cur2 sp2)
  have regs2: "map (regs ?s2) R4_R11 = map (regs s) R4_R11"
    using PendSV_Handler_R4_R11 [of L s1] by (simp only: cur2 sp2 fr2)
  have nxt_cell: "next_tcb_addr L \<notin> save_cells L s1"
    using inv n g
    by (auto simp add: save_cells_def s1_def current_tcb_def sched_inv_def stack_clear_def
        kernel_cells_def)
  have nxt2: "next_tcb L ?s2 = T"
    using PendSV_Handler_mem_other [OF nxt_cell] g nxt1 by (simp add: next_tcb_def)
  have st: "steady L T ?s2"
    unfolding steady_def by (simp add: nxt2 sp2 psp2' fr2 regs2)
  from tick nxt1 inv2 st regs2 psp2' cur2 show ?thesis
    by (simp add: cycle_def)
qed


lemma cycle_steady:
  assumes inv: "sched_inv L [T] s" and st: "steady L T s"
  shows "\<exists>s'. cycle L s = Some s' \<and> mem s' = mem s \<and>
           map (regs s') R4_R11 = map (regs s) R4_R11 \<and> PSP s' = PSP s \<and>
           sched_inv L [T] s' \<and> steady L T s'"
proof -
  from inv have cur: "current_tcb L s = T" and T0: "T \<noteq> 0"
    and ring: "mem s (next_field T) = T"
    by (auto simp add: sched_inv_def layout_ok_def closed_ring_def kernel_cells_def)
  from st have nxt: "mem s (next_tcb_addr L) = T"
    and sp: "mem s (stack_pointer_field T) = PSP s - 32"
    and fr: "read_words (mem s) (PSP s - 32) 8 = map (regs s) R4_R11"
    by (simp_all add: steady_def next_tcb_def)
  have c0: "current_tcb L s \<noteq> 0" using cur T0 by simp
  define s1 where "s1 = s\<lparr>mem := (mem s)(next_tcb_addr L := mem s (next_field (current_tcb L s))),
             ICSR := ICSR s OR push_bit 28 1\<rparr>"
  have tick: "SysTick_Handler L s = Some s1"
    unfolding s1_def by (rule SysTick_Handler_Some [OF c0])
  have "(mem s)(next_tcb_addr L := T) = mem s"
    using nxt by (metis fun_upd_triv)
  then have m1: "mem s1 = mem s"
    by (simp add: s1_def cur ring)
  have c1: "current_tcb L s1 \<noteq> 0" "current_tcb L s1 = T"
    using c0 cur by (simp_all add: current_tcb_def m1)
  have p1: "PSP s1 = PSP s" "regs s1 = regs s" by (simp_all add: s1_def)
  have w: "write_words (mem s) (PSP s - 32) (map (regs s) R4_R11) = mem s"
    using fr by (intro write_words_same) (simp add: length_R4_R11)
  have "(mem s)(stack_pointer_field T := PSP s - 32) = mem s"
    using sp by (metis fun_upd_triv)
  then have msc: "mem (save_context L s1) = mem s"
    by (simp add: save_context_nonnull(1) [OF c1(1)] m1 p1 c1(2) w)
  have "(mem s)(current_tcb_addr L := T) = mem s"
    using cur by (metis current_tcb_def fun_upd_triv)
  then have m2: "mem (PendSV_Handler L s1) = mem s"
    by (simp add: PendSV_Handler_mem msc next_tcb_def nxt)
  from cycle_single [OF inv] tick
  have "cycle L s = Some (PendSV_Handler L s1)"
    "sched_inv L [T] (PendSV_Handler L s1)" "steady L T (PendSV_Handler L s1)"
    "map (regs (PendSV_Handler L s1)) R4_R11 = map (regs s) R4_R11"
    "PSP (PendSV_Handler L s1) = PSP s"
    by simp_all
  with m2 show ?thesis by simp
qed

lemma cycles_steady:
  assumes "sched_inv L [T] s" "steady L T s"
  shows "\<exists>s'. cycles L n s = Some s' \<and> mem s' = mem s \<and>
           map (regs s') R4_R11 = map (regs s) R4_R11 \<and> PSP s' = PSP s \<and>
           sched_inv L [T] s' \<and> steady L T s'"
  using assms
proof (induction n arbitrary: s)
  case 0
  then show ?case by simp
next
  case (Suc n)
  from cycle_steady [OF Suc.prems] obtain s1 where
    c: "cycle L s = Some s1" and e: "mem s1 = mem s"
    "map (regs s1) R4_R11 = map (regs s) R4_R11" "PSP s1 = PSP s"
    and i: "sched_inv L [T] s1" "steady L T s1"
    by (elim exE conjE)
  from Suc.IH [OF i] obtain s' where
    "cycles L n s1 = Some s'" "mem s' = mem s1"
    "map (regs s') R4_R11 = map (regs s1) R4_R11" "PSP s' = PSP s1"
    "sched_inv L [T] s'" "steady L T s'"
    by (elim exE conjE)
  with c e show ?case by simp
qed

lemma LoadNewContext_regs:
  "regs (LoadNewContext L s) R0 = 0xFFFFFFFD" "regs (LoadNewContext L s) R1 = regs s R1"
  "regs (LoadNewContext L s) R2 = regs s R2" "regs (LoadNewContext L s) R3 = next_tcb_addr L"
  "regs (LoadNewContext L s) R12 = regs s R12"
  by (simp_all add: LoadNewContext_def Let_def LDR_lit_def LDR_reg_def STR_reg_def LDMIA_wb_def
      MSR_PSP_def ISB_def MOV_def BX_def R4_R11_def)

lemma PendSV_Handler_scratch_regs:
  assumes "current_tcb L s \<noteq> 0"
  shows "regs (PendSV_Handler L s) R0 = 0xFFFFFFFD"
    "regs (PendSV_Handler L s) R1 = current_tcb_addr L"
    "regs (PendSV_Handler L s) R2 = current_tcb L s"
    "regs (PendSV_Handler L s) R3 = next_tcb_addr L"
    "regs (PendSV_Handler L s) R12 = regs s R12"
    "regs (PendSV_Handler L s) LR = 0xFFFFFFFD"
    "PC (PendSV_Handler L s) = 0xFFFFFFFD"
  by (simp_all add: PendSV_Handler_def LoadNewContext_regs LoadNewContext_misc
      save_context_nonnull(3) [OF assms])

lemma cycle_returns_to_thread_mode:
  assumes "cycle L s = Some s'"
  shows "PC s' = 0xFFFFFFFD" "regs s' LR = 0xFFFFFFFD"
proof -
  from assms obtain s1 where "s' = PendSV_Handler L s1"
    by (cases "SysTick_Handler L s") (auto simp add: cycle_def)
  then show "PC s' = 0xFFFFFFFD" "regs s' LR = 0xFFFFFFFD"
    by (simp_all add: PendSV_Handler_def LoadNewContext_misc)
qed

lemma cycles_return_to_thread_mode:
  assumes "cycles L n s = Some s'" "PC s = 0xFFFFFFFD" "regs s LR = 0xFFFFFFFD"
  shows "PC s' = 0xFFFFFFFD \<and> regs s' LR = 0xFFFFFFFD"
  using assms
proof (induction n arbitrary: s)
  case 0
  then show ?case by simp
next
  case (Suc n)
  from Suc.prems(1) obtain s1 where c: "cycle L s = Some s1" and r: "cycles L n s1 = Some s'"
    by (cases "cycle L s") simp_all
  from Suc.IH [OF r cycle_returns_to_thread_mode [OF c]] show ?case .
qed

lemma single_switch_state:
  assumes inv: "sched_inv L [T] s" and tick: "SysTick_Handler L s = Some s1"
  shows "mem (PendSV_Handler L s1) =
           (write_words (mem s1) (PSP s - 32) (map (regs s) R4_R11))
             (stack_pointer_field T := PSP s - 32)"
    and "regs (PendSV_Handler L s1) =
           (regs s)(R0 := 0xFFFFFFFD, R1 := current_tcb_addr L, R2 := T,
                    R3 := next_tcb_addr L, LR := 0xFFFFFFFD)"
    and "PC (PendSV_Handler L s1) = 0xFFFFFFFD"
proof -
  let ?s2 = "PendSV_Handler L s1"
  let ?m2 = "(write_words (mem s1) (PSP s - 32) (map (regs s) R4_R11))
             (stack_pointer_field T := PSP s - 32)"
  from inv have cur: "current_tcb L s = T" and T0: "T \<noteq> 0"
    and g: "current_tcb_addr L \<noteq> next_tcb_addr L"
    and c_sp: "current_tcb_addr L \<noteq> stack_pointer_field T"
    and n_sp: "next_tcb_addr L \<noteq> stack_pointer_field T"
    and clr: "stack_clear L [T] (PSP s - 32)"
    by (auto simp add: sched_inv_def layout_ok_def closed_ring_def kernel_cells_def)
  have c0: "current_tcb L s \<noteq> 0" using cur T0 by simp
  from tick SysTick_Handler_Some [OF c0]
  have s1: "s1 = s\<lparr>mem := (mem s)(next_tcb_addr L := mem s (next_field (current_tcb L s))),
             ICSR := ICSR s OR push_bit 28 1\<rparr>" by simp
  have cur1: "current_tcb L s1 = T"
    using g cur by (simp add: s1 current_tcb_def)
  have c1: "current_tcb L s1 \<noteq> 0" using cur1 T0 by simp
  have p1: "PSP s1 = PSP s" "regs s1 = regs s" by (simp_all add: s1)
  from cycle_single [OF inv] tick have nxt1: "next_tcb L s1 = T" by simp
  have c_out: "current_tcb_addr L \<notin> set (word_addrs (PSP s - 32) 8)"
    and n_out: "next_tcb_addr L \<notin> set (word_addrs (PSP s - 32) 8)"
    using stack_clearD [OF clr kernel_cells_mem(1)] stack_clearD [OF clr kernel_cells_mem(2)]
    by simp_all
  have msc: "mem (save_context L s1) = ?m2"
    by (simp add: save_context_nonnull(1) [OF c1] cur1 p1)
  have "?m2 (current_tcb_addr L) = T"
    using c_sp c_out cur1 by (simp add: write_words_other length_R4_R11 current_tcb_def)
  moreover have "?m2 (next_tcb_addr L) = T"
    using n_sp n_out nxt1 by (simp add: write_words_other length_R4_R11 next_tcb_def)
  ultimately have "?m2(current_tcb_addr L := ?m2 (next_tcb_addr L)) = ?m2"
    by (metis fun_upd_triv)
  then show m2: "mem ?s2 = ?m2"
    by (simp only: PendSV_Handler_mem msc next_tcb_def)
  show pc: "PC ?s2 = 0xFFFFFFFD"
    by (rule PendSV_Handler_scratch_regs(7) [OF c1])
  from cycle_single [OF inv] tick
  have r: "map (regs ?s2) R4_R11 = map (regs s) R4_R11" by simp
  show "regs ?s2 = (regs s)(R0 := 0xFFFFFFFD, R1 := current_tcb_addr L, R2 := T,
                    R3 := next_tcb_addr L, LR := 0xFFFFFFFD)"
  proof
    fix r' show "regs ?s2 r' = ((regs s)(R0 := 0xFFFFFFFD, R1 := current_tcb_addr L, R2 := T,
                    R3 := next_tcb_addr L, LR := 0xFFFFFFFD)) r'"
      using r PendSV_Handler_scratch_regs(1-6) [OF c1]
      by (cases r') (simp_all add: R4_R11_def cur1 p1)
  qed
qed

text \<open>
  Claim C7, as the code has it. In a ring of the single thread \<open>T\<close> (\<open>T->next = T\<close>,
  \<open>current_tcb = T\<close>, in a well-formed scheduling state) the tick returns and sets
  \<open>next_tcb\<close> to \<open>T\<close>. The switch that follows stores R4..R11 to the eight words below the
  process stack pointer and that address to \<open>T->stack_pointer\<close> (no other cell changes),
  reloads R4..R11 from the frame \<open>T->stack_pointer\<close> now points to, the same eight
  words, and branches to \<open>0xFFFFFFFD\<close>: R4..R11, R12 and the process stack pointer are as
  before the switch, R0..R3 and LR hold the handler's own values, \<open>current_tcb\<close> and
  \<open>next_tcb\<close> are \<open>T\<close>, and the frame holds the pre-switch values of R4..R11. The
  switch does write the frame and \<open>T->stack_pointer\<close>: their contents are as before the
  switch only once they hold these values, which is the case for every cycle after the
  first when no thread code runs in between. Any number of further cycles returns (no
  deadlock), each ends at \<open>0xFFFFFFFD\<close>, and none changes memory, R4..R11 or the process
  stack pointer.
\<close>

theorem single_thread_ring:
  assumes "sched_inv L [T] s"
  shows "(\<exists>s1. SysTick_Handler L s = Some s1 \<and> next_tcb L s1 = T \<and>
            mem (PendSV_Handler L s1) =
              (write_words (mem s1) (PSP s - 32) (map (regs s) R4_R11))
                (stack_pointer_field T := PSP s - 32) \<and>
            mem (PendSV_Handler L s1) (stack_pointer_field T) = PSP s - 32 \<and>
            read_words (mem (PendSV_Handler L s1))
              (mem (PendSV_Handler L s1) (stack_pointer_field T)) 8 = map (regs s) R4_R11 \<and>
            map (regs (PendSV_Handler L s1)) R4_R11 =
              read_words (mem (PendSV_Handler L s1))
                (mem (PendSV_Handler L s1)
                   (stack_pointer_field (current_tcb L (PendSV_Handler L s1)))) 8 \<and>
            regs (PendSV_Handler L s1) =
              (regs s)(R0 := 0xFFFFFFFD, R1 := current_tcb_addr L, R2 := T,
                       R3 := next_tcb_addr L, LR := 0xFFFFFFFD) \<and>
            map (regs (PendSV_Handler L s1)) R4_R11 = map (regs s) R4_R11 \<and>
            PSP (PendSV_Handler L s1) = PSP s \<and>
            PC (PendSV_Handler L s1) = 0xFFFFFFFD \<and>
            current_tcb L (PendSV_Handler L s1) = T \<and>
            next_tcb L (PendSV_Handler L s1) = T) \<and>
         (\<forall>n. \<exists>s1 s'. cycle L s = Some s1 \<and> cycles L n s1 = Some s' \<and>
            mem s' = mem s1 \<and> map (regs s') R4_R11 = map (regs s) R4_R11 \<and>
            PSP s' = PSP s \<and> PC s' = 0xFFFFFFFD \<and> regs s' LR = 0xFFFFFFFD \<and>
            current_tcb L s' = T \<and> next_tcb L s' = T)"
proof (intro conjI allI)
  from cycle_single [OF assms] obtain s1 where
    t: "SysTick_Handler L s = Some s1" "next_tcb L s1 = T"
    and c: "cycle L s = Some (PendSV_Handler L s1)"
    and i: "sched_inv L [T] (PendSV_Handler L s1)" "steady L T (PendSV_Handler L s1)"
    and r: "map (regs (PendSV_Handler L s1)) R4_R11 = map (regs s) R4_R11"
    "PSP (PendSV_Handler L s1) = PSP s" "current_tcb L (PendSV_Handler L s1) = T"
    by (elim exE conjE)
  let ?s2 = "PendSV_Handler L s1"
  note st = single_switch_state [OF assms t(1)]
  from i(2) r(2) have sp: "mem ?s2 (stack_pointer_field T) = PSP s - 32"
    and nx: "next_tcb L ?s2 = T"
    by (simp_all add: steady_def)
  from i(2) r(1,2) have fr: "read_words (mem ?s2) (mem ?s2 (stack_pointer_field T)) 8 =
      map (regs s) R4_R11"
    by (simp add: steady_def)
  have ld: "map (regs ?s2) R4_R11 =
      read_words (mem ?s2) (mem ?s2 (stack_pointer_field (current_tcb L ?s2))) 8"
    by (rule PendSV_Handler_R4_R11)
  from t st(1) sp fr ld st(2) r(1,2) st(3) r(3) nx
  show "\<exists>s1. SysTick_Handler L s = Some s1 \<and> next_tcb L s1 = T \<and>
            mem (PendSV_Handler L s1) =
              (write_words (mem s1) (PSP s - 32) (map (regs s) R4_R11))
                (stack_pointer_field T := PSP s - 32) \<and>
            mem (PendSV_Handler L s1) (stack_pointer_field T) = PSP s - 32 \<and>
            read_words (mem (PendSV_Handler L s1))
              (mem (PendSV_Handler L s1) (stack_pointer_field T)) 8 = map (regs s) R4_R11 \<and>
            map (regs (PendSV_Handler L s1)) R4_R11 =
              read_words (mem (PendSV_Handler L s1))
                (mem (PendSV_Handler L s1)
                   (stack_pointer_field (current_tcb L (PendSV_Handler L s1)))) 8 \<and>
            regs (PendSV_Handler L s1) =
              (regs s)(R0 := 0xFFFFFFFD, R1 := current_tcb_addr L, R2 := T,
                       R3 := next_tcb_addr L, LR := 0xFFFFFFFD) \<and>
            map (regs (PendSV_Handler L s1)) R4_R11 = map (regs s) R4_R11 \<and>
            PSP (PendSV_Handler L s1) = PSP s \<and>
            PC (PendSV_Handler L s1) = 0xFFFFFFFD \<and>
            current_tcb L (PendSV_Handler L s1) = T \<and>
            next_tcb L (PendSV_Handler L s1) = T"
    by (intro exI conjI)
  fix n
  from cycles_steady [OF i, of n] obtain s' where
    cs: "cycles L n ?s2 = Some s'" and e: "mem s' = mem ?s2"
    "map (regs s') R4_R11 = map (regs ?s2) R4_R11"
    "PSP s' = PSP ?s2" and i': "sched_inv L [T] s'" "steady L T s'"
    by (elim exE conjE)
  from cycle_returns_to_thread_mode [OF c]
  have "PC ?s2 = 0xFFFFFFFD" "regs ?s2 LR = 0xFFFFFFFD" .
  from cycles_return_to_thread_mode [OF cs this]
  have pc: "PC s' = 0xFFFFFFFD" "regs s' LR = 0xFFFFFFFD" by simp_all
  from i' have ct: "current_tcb L s' = T" "next_tcb L s' = T"
    by (simp_all add: steady_def sched_inv_def)
  from c cs e r(1,2) pc ct
  show "\<exists>s1 s'. cycle L s = Some s1 \<and> cycles L n s1 = Some s' \<and>
            mem s' = mem s1 \<and> map (regs s') R4_R11 = map (regs s) R4_R11 \<and>
            PSP s' = PSP s \<and> PC s' = 0xFFFFFFFD \<and> regs s' LR = 0xFFFFFFFD \<and>
            current_tcb L s' = T \<and> next_tcb L s' = T"
    by (intro exI conjI) simp_all
qed

theorem single_thread_ring_witness:
  "\<exists>s1 s'. cycle usage_symbols solo_running = Some s1 \<and>
      cycles usage_symbols 5 s1 = Some s' \<and> mem s' = mem s1 \<and>
      map (regs s') R4_R11 = [0x44, 0x55, 0x66, 0x77, 0x88, 0x99, 0xAA, 0xBB] \<and>
      PSP s' = 0x200010E0 \<and> PC s' = 0xFFFFFFFD \<and> current_tcb usage_symbols s' = tcb_t1"
proof -
  have inv: "sched_inv usage_symbols [tcb_t1] solo_running"
    by (simp add: sched_inv_def layout_ok_def kernel_cells_def closed_ring_def stack_clear_def
        current_tcb_def solo_running_def word_addrs_8 usage_defs)
  have r: "map (regs solo_running) R4_R11 = [0x44, 0x55, 0x66, 0x77, 0x88, 0x99, 0xAA, 0xBB]"
    by (simp add: solo_running_def R4_R11_def usage_defs)
  have p: "PSP solo_running = 0x200010E0" by (simp add: solo_running_def usage_defs)
  note T = single_thread_ring [OF inv, THEN conjunct2, rule_format, of 5]
  from T show ?thesis
    unfolding r p by (elim exE conjE) (intro exI conjI; assumption)
qed

text \<open>
  The clause of claim C7 that the frame \<open>T1->stack_pointer\<close> points to has its
  pre-switch contents fails at the first switch of the one-thread ring \<open>solo_running\<close>, a
  well-formed scheduling state. Before the switch \<open>T1->stack_pointer\<close> is 0 and the
  eight words at 0 and at \<open>0x200010C0\<close> are zero; the switch stores R4..R11 there and
  the pointer becomes \<open>0x200010C0\<close>, so the pointed-to frame differs from the
  pre-switch contents of the old frame and of the new one.
\<close>

theorem single_thread_ring_frame_counterexample:
  "sched_inv usage_symbols [tcb_t1] solo_running \<and>
   SysTick_Handler usage_symbols solo_running = Some solo_ticked \<and>
   mem solo_ticked (stack_pointer_field tcb_t1) = 0 \<and>
   read_words (mem solo_ticked) 0 8 = [0, 0, 0, 0, 0, 0, 0, 0] \<and>
   read_words (mem solo_ticked) 0x200010C0 8 = [0, 0, 0, 0, 0, 0, 0, 0] \<and>
   mem (PendSV_Handler usage_symbols solo_ticked) (stack_pointer_field tcb_t1) = 0x200010C0 \<and>
   read_words (mem (PendSV_Handler usage_symbols solo_ticked)) 0x200010C0 8 =
     [0x44, 0x55, 0x66, 0x77, 0x88, 0x99, 0xAA, 0xBB] \<and>
   read_words (mem (PendSV_Handler usage_symbols solo_ticked))
       (mem (PendSV_Handler usage_symbols solo_ticked) (stack_pointer_field tcb_t1)) 8 \<noteq>
     read_words (mem solo_ticked) (mem solo_ticked (stack_pointer_field tcb_t1)) 8 \<and>
   read_words (mem (PendSV_Handler usage_symbols solo_ticked))
       (mem (PendSV_Handler usage_symbols solo_ticked) (stack_pointer_field tcb_t1)) 8 \<noteq>
     read_words (mem solo_ticked)
       (mem (PendSV_Handler usage_symbols solo_ticked) (stack_pointer_field tcb_t1)) 8"
proof -
  let ?L = usage_symbols
  let ?s2 = "PendSV_Handler ?L solo_ticked"
  have inv: "sched_inv ?L [tcb_t1] solo_running"
    by (simp add: sched_inv_def layout_ok_def kernel_cells_def closed_ring_def stack_clear_def
        current_tcb_def solo_running_def word_addrs_8 usage_defs)
  have cur: "current_tcb ?L solo_running = tcb_t1"
    by (simp add: current_tcb_def solo_running_def usage_defs)
  have t0: "tcb_t1 \<noteq> 0" by (simp add: usage_defs)
  have c0: "current_tcb ?L solo_running \<noteq> 0" unfolding cur by (rule t0)
  have nf: "mem solo_running (next_field tcb_t1) = tcb_t1"
    by (simp add: solo_running_def usage_defs)
  have tick: "SysTick_Handler ?L solo_running = Some solo_ticked"
    using SysTick_Handler_Some [OF c0] by (simp add: solo_ticked_def cur nf)
  have cur1: "current_tcb ?L solo_ticked = tcb_t1"
    by (simp add: current_tcb_def solo_ticked_def solo_running_def usage_defs)
  have c1: "current_tcb ?L solo_ticked \<noteq> 0" unfolding cur1 by (rule t0)
  have psp: "PSP solo_ticked - 32 = 0x200010C0"
    by (simp add: solo_ticked_def solo_running_def usage_defs)
  have sp0: "mem solo_ticked (stack_pointer_field tcb_t1) = 0"
    by (simp add: solo_ticked_def solo_running_def usage_defs)
  have z0: "read_words (mem solo_ticked) 0 8 = [0, 0, 0, 0, 0, 0, 0, 0]"
    by (simp add: read_words_def word_addrs_8 solo_ticked_def solo_running_def usage_defs)
  have z1: "read_words (mem solo_ticked) 0x200010C0 8 = [0, 0, 0, 0, 0, 0, 0, 0]"
    by (simp add: read_words_def word_addrs_8 solo_ticked_def solo_running_def usage_defs)
  have a1: "current_tcb_addr ?L \<noteq> stack_pointer_field (current_tcb ?L solo_ticked)"
    unfolding cur1 by (simp add: usage_defs)
  have a2: "stack_pointer_field (current_tcb ?L solo_ticked) \<notin>
      set (word_addrs (PSP solo_ticked - 32) 8)"
    unfolding cur1 psp by (simp add: word_addrs_8 usage_defs)
  have a3: "current_tcb_addr ?L \<notin> set (word_addrs (PSP solo_ticked - 32) 8)"
    unfolding psp by (simp add: word_addrs_8 usage_defs)
  have sp2: "mem ?s2 (stack_pointer_field tcb_t1) = 0x200010C0"
    using PendSV_Handler_saved_sp [OF c1 a1] by (simp only: cur1 psp)
  have "map (regs solo_ticked) R4_R11 = [0x44, 0x55, 0x66, 0x77, 0x88, 0x99, 0xAA, 0xBB]"
    by (simp add: solo_ticked_def solo_running_def R4_R11_def usage_defs)
  with PendSV_Handler_saved_frame [OF c1 a2 a3]
  have fr2: "read_words (mem ?s2) 0x200010C0 8 =
      [0x44, 0x55, 0x66, 0x77, 0x88, 0x99, 0xAA, 0xBB]"
    by (simp only: psp)
  have d1: "read_words (mem ?s2) (mem ?s2 (stack_pointer_field tcb_t1)) 8 \<noteq>
      read_words (mem solo_ticked) (mem solo_ticked (stack_pointer_field tcb_t1)) 8"
    unfolding sp2 sp0 fr2 z0 by simp
  have d2: "read_words (mem ?s2) (mem ?s2 (stack_pointer_field tcb_t1)) 8 \<noteq>
      read_words (mem solo_ticked) (mem ?s2 (stack_pointer_field tcb_t1)) 8"
    unfolding sp2 fr2 z1 by simp
  from inv tick sp0 z0 z1 sp2 fr2 d1 d2 show ?thesis by (intro conjI)
qed

section \<open>The ring stays closed\<close>

lemma OS_ThreadInit_mem_other:
  assumes "x \<notin> set (word_addrs (stack_top sa n - 64) 16)" "x \<noteq> stack_pointer_field tcb"
  shows "mem (OS_ThreadInit tcb sa n task s) x = mem s x"
  using assms by (simp add: OS_ThreadInit_mem Let_def word_addrs_16)

lemma kernel_step_mem_other:
  assumes "kernel_step L op s = Some s'" "x \<notin> op_cells L op s"
  shows "mem s' x = mem s x"
proof (cases op)
  case (ThreadInit tcb sa n task)
  with assms have "s' = OS_ThreadInit tcb sa n task s"
    "x \<notin> set (word_addrs (stack_top sa n - 64) 16)" "x \<noteq> stack_pointer_field tcb"
    by simp_all
  then show ?thesis using OS_ThreadInit_mem_other [of x sa n tcb task s] by simp
next
  case Tick
  with assms have "SysTick_Handler L s = Some s'" "x \<noteq> next_tcb_addr L" by simp_all
  then show ?thesis
    by (cases "current_tcb L s = 0") (auto simp add: SysTick_Handler_def Let_def)
next
  case Switch
  with assms have "s' = PendSV_Handler L s" "x \<notin> save_cells L s" "x \<noteq> current_tcb_addr L"
    by simp_all
  then show ?thesis using PendSV_Handler_mem_other [of x L s] by simp
qed

lemma kernel_step_closed_ring:
  assumes "kernel_step L op s = Some s'" "op_cells L op s \<inter> next_field ` set ts = {}"
    "closed_ring (mem s) ts"
  shows "closed_ring (mem s') ts"
proof (rule closed_ring_cong [OF assms(3)])
  fix t assume "t \<in> set ts"
  then have "next_field t \<notin> op_cells L op s" using assms(2) by blast
  with assms(1) show "mem s' (next_field t) = mem s (next_field t)"
    by (rule kernel_step_mem_other)
qed

lemma kernel_run_closed_ring:
  assumes "kernel_run L ops s = Some s'" "apart L (next_field ` set ts) ops s"
    "closed_ring (mem s) ts"
  shows "closed_ring (mem s') ts"
  using assms
proof (induction ops arbitrary: s)
  case Nil
  then show ?case by simp
next
  case (Cons op ops)
  from Cons.prems(1) obtain s1 where s1: "kernel_step L op s = Some s1"
    and r: "kernel_run L ops s1 = Some s'"
    by (cases "kernel_step L op s") simp_all
  from Cons.prems(2) s1 have a: "op_cells L op s \<inter> next_field ` set ts = {}"
    and a': "apart L (next_field ` set ts) ops s1" by simp_all
  from kernel_step_closed_ring [OF s1 a Cons.prems(3)] have "closed_ring (mem s1) ts" .
  with Cons.IH [OF r a'] show ?case .
qed

text \<open>
  Claim C8. No kernel operation writes a TCB's \<open>next\<close> field: \<open>OS_ThreadInit\<close>, the
  tick handler and the switch trampoline change memory only at the cells of \<open>op_cells\<close>
  (stack words, \<open>stack_pointer\<close> fields and the two globals). So a closed ring stays
  closed through every run of kernel operations whose cells are apart from the ring's
  \<open>next\<close> fields (the objects do not overlap), and from a well-formed scheduling state
  the ring is closed after any number of tick-then-switch cycles.
\<close>

theorem ring_closure_preserved:
  "(\<forall>x. kernel_step L op s = Some s' \<longrightarrow> x \<notin> op_cells L op s \<longrightarrow> mem s' x = mem s x) \<and>
   (closed_ring (mem s) ts \<longrightarrow> apart L (next_field ` set ts) ops s \<longrightarrow>
      kernel_run L ops s = Some s'' \<longrightarrow> closed_ring (mem s'') ts) \<and>
   (sched_inv L ts s \<longrightarrow> (\<forall>n. \<exists>s'. cycles L n s = Some s' \<and> closed_ring (mem s') ts))"
proof (intro conjI allI impI)
  fix x assume "kernel_step L op s = Some s'" "x \<notin> op_cells L op s"
  then show "mem s' x = mem s x" by (rule kernel_step_mem_other)
next
  assume a: "closed_ring (mem s) ts" and b: "apart L (next_field ` set ts) ops s"
    and c: "kernel_run L ops s = Some s''"
  show "closed_ring (mem s'') ts" by (rule kernel_run_closed_ring [OF c b a])
next
  fix n assume inv: "sched_inv L ts s"
  then have "current_tcb L s \<in> set ts" by (simp add: sched_inv_def)
  then obtain i where i: "i < length ts" "current_tcb L s = ts ! i"
    by (metis in_set_conv_nth)
  from cycles_sched_inv [OF inv i(2,1), of n] obtain s' where
    "cycles L n s = Some s'" "sched_inv L ts s'" by (elim exE conjE)
  then show "\<exists>s'. cycles L n s = Some s' \<and> closed_ring (mem s') ts"
    by (simp add: sched_inv_def)
qed

theorem ring_closure_preserved_witness:
  "mem (OS_ThreadInit tcb_t1 stack_s1 STACK_SIZE task_1 t1_running) (next_field tcb_t1) = tcb_t2 \<and>
   (\<exists>s'. kernel_run usage_symbols [Tick, Switch] t1_running = Some s' \<and>
          closed_ring (mem s') [tcb_t1, tcb_t2, tcb_t3]) \<and>
   (\<exists>s'. cycles usage_symbols 7 t1_running = Some s' \<and>
          closed_ring (mem s') [tcb_t1, tcb_t2, tcb_t3])"
proof -
  let ?L = usage_symbols and ?ts = "[tcb_t1, tcb_t2, tcb_t3]"
  let ?op = "ThreadInit tcb_t1 stack_s1 STACK_SIZE task_1"
  let ?i = "OS_ThreadInit tcb_t1 stack_s1 STACK_SIZE task_1 t1_running"
  define s1 where "s1 = t1_running\<lparr>mem := (mem t1_running)(next_tcb_addr ?L :=
      mem t1_running (next_field (current_tcb ?L t1_running))),
      ICSR := ICSR t1_running OR push_bit 28 1\<rparr>"
  note T = ring_closure_preserved
  \<comment> \<open>OS_ThreadInit leaves the next field alone\<close>
  have k: "kernel_step ?L ?op t1_running = Some ?i" by simp
  have x: "next_field tcb_t1 \<notin> op_cells ?L ?op t1_running"
    by (simp add: word_addrs_16 usage_defs)
  note T1 = T [of ?L ?op t1_running ?i, THEN conjunct1, rule_format, OF k x]
  from T1 have "mem ?i (next_field tcb_t1) = mem t1_running (next_field tcb_t1)" .
  then have a: "mem ?i (next_field tcb_t1) = tcb_t2"
    by (simp add: t1_running_def usage_defs)
  \<comment> \<open>a tick and a switch\<close>
  have cur: "current_tcb ?L t1_running = tcb_t1"
    by (simp add: current_tcb_def t1_running_def usage_defs)
  have c0: "current_tcb ?L t1_running \<noteq> 0"
    unfolding cur by (simp add: usage_defs)
  have tick: "SysTick_Handler ?L t1_running = Some s1"
    unfolding s1_def by (rule SysTick_Handler_Some [OF c0])
  have run: "kernel_run ?L [Tick, Switch] t1_running = Some (PendSV_Handler ?L s1)"
    by (simp add: tick)
  have ring: "closed_ring (mem t1_running) ?ts"
    by (simp add: closed_ring_def t1_running_def usage_defs)
  have cur1: "current_tcb ?L s1 = tcb_t1"
    by (simp add: s1_def current_tcb_def t1_running_def usage_defs)
  have psp1: "PSP s1 - 32 = 0x200010C0"
    by (simp add: s1_def t1_running_def usage_defs)
  have sc: "save_cells ?L s1 = set (word_addrs 0x200010C0 8) \<union> {tcb_t1}"
    by (simp add: save_cells_def cur1 psp1 stack_pointer_field_def tcb_t1_def)
  have ap1: "op_cells ?L Tick t1_running \<inter> next_field ` set ?ts = {}"
    by (simp add: usage_defs)
  have ap2: "op_cells ?L Switch s1 \<inter> next_field ` set ?ts = {}"
    unfolding op_cells.simps sc by (simp add: word_addrs_8 usage_defs)
  have ap: "apart ?L (next_field ` set ?ts) [Tick, Switch] t1_running"
    using ap1 ap2 by (simp add: tick del: op_cells.simps)
  note T2 = T [of ?L _ t1_running _ ?ts "[Tick, Switch]" "PendSV_Handler ?L s1",
      THEN conjunct2, THEN conjunct1, rule_format, OF ring ap run]
  from T2 have "closed_ring (mem (PendSV_Handler ?L s1)) ?ts" .
  with run have b: "\<exists>s'. kernel_run ?L [Tick, Switch] t1_running = Some s' \<and>
      closed_ring (mem s') ?ts"
    by (intro exI conjI)
  \<comment> \<open>seven cycles\<close>
  have inv: "sched_inv ?L ?ts t1_running"
    by (simp add: sched_inv_def layout_ok_def kernel_cells_def closed_ring_def stack_clear_def
        current_tcb_def t1_running_def word_addrs_8 usage_defs)
  note T3 = T [of ?L _ t1_running _ ?ts, THEN conjunct2, THEN conjunct2, rule_format,
      OF inv, of 7]
  from T3 have c: "\<exists>s'. cycles ?L 7 t1_running = Some s' \<and> closed_ring (mem s') ?ts" .
  from a b c show ?thesis by (intro conjI)
qed

section \<open>The footprint of OS_ThreadInit\<close>

lemma word_addrs_map: "word_addrs a n = map (\<lambda>j. a + 4 * of_nat j) [0..<n]"
proof (induction n arbitrary: a)
  case 0
  then show ?case by simp
next
  case (Suc n)
  have "[0..<Suc n] = 0 # map Suc [0..<n]"
    by (simp add: upt_conv_Cons map_Suc_upt del: upt_Suc)
  then show ?case by (simp add: Suc.IH comp_def algebra_simps del: upt_Suc)
qed

lemma word_addrs_written:
  "word_addrs (stack_top sa n - 64) 16 = written_words sa n"
  unfolding word_addrs_map written_words_def
  by (rule map_cong [OF refl]) (simp add: buffer_cell_def stack_top_def algebra_simps)

lemma buffer_cell_inj:
  assumes "uint sa + 4 * n \<le> 2 ^ 32" "0 \<le> i" "i < n" "0 \<le> j" "j < n"
    and "buffer_cell sa i = buffer_cell sa j"
  shows "i = j"
proof -
  have u: "0 \<le> uint sa" by simp
  from assms(6) have "(word_of_int (4 * i) :: word32) = word_of_int (4 * j)"
    by (simp add: buffer_cell_def)
  then have "take_bit 32 (4 * i) = take_bit 32 (4 * j)"
    unfolding word_of_int_eq_iff by simp
  moreover have "0 \<le> 4 * i" "4 * i < 2 ^ 32" "0 \<le> 4 * j" "4 * j < 2 ^ 32"
    using assms(1-5) u by linarith+
  ultimately have "4 * i = 4 * j"
    by (simp add: take_bit_int_eq_self)
  then show ?thesis by simp
qed


lemma written_words_subset:
  assumes "16 \<le> n"
  shows "set (written_words sa n) \<subseteq> buffer_cells sa n"
proof
  fix x assume "x \<in> set (written_words sa n)"
  then obtain k where k: "k < 16" "x = buffer_cell sa (n - 16 + int k)"
    by (auto simp add: written_words_def)
  with assms have "0 \<le> n - 16 + int k" "n - 16 + int k < n" by simp_all
  then have lt: "nat (n - 16 + int k) < nat n"
    and eq: "buffer_cell sa (n - 16 + int k) = sa + 4 * of_nat (nat (n - 16 + int k))"
    by (simp_all add: buffer_cell_def)
  have "x \<in> (\<lambda>j. sa + 4 * of_nat j) ` {0..<nat n}"
    unfolding k(2) eq using lt by (intro imageI) simp
  then show "x \<in> buffer_cells sa n"
    by (simp add: buffer_cells_def word_addrs_map)
qed

lemma below_not_written:
  assumes "uint sa + 4 * n \<le> 2 ^ 32" "0 \<le> i" "i < n - 16"
  shows "buffer_cell sa i \<notin> set (written_words sa n)"
proof
  assume "buffer_cell sa i \<in> set (written_words sa n)"
  then obtain k where k: "k < 16" "buffer_cell sa i = buffer_cell sa (n - 16 + int k)"
    by (auto simp add: written_words_def)
  from assms(2,3) k(1) have "i < n" "0 \<le> n - 16 + int k" "n - 16 + int k < n" by simp_all
  from buffer_cell_inj [OF assms(1,2) this k(2)] assms(3) show False by simp
qed

lemma OS_ThreadInit_independent:
  assumes "x \<in> insert (stack_pointer_field tcb) (set (word_addrs (stack_top sa n - 64) 16))"
  shows "mem (OS_ThreadInit tcb sa n task s2) x = mem (OS_ThreadInit tcb sa n task s) x"
proof (cases "x = stack_pointer_field tcb")
  case True
  then show ?thesis by (simp add: OS_ThreadInit_mem Let_def)
next
  case False
  define tp where "tp = stack_top sa n"
  from False assms have "x \<in> set (word_addrs (tp - 64) 16)" by (simp add: tp_def)
  then have "x \<in> {tp - 4, tp - 8, tp - 12, tp - 16, tp - 20, tp - 24,
      tp - 28, tp - 32, tp - 36, tp - 40, tp - 44, tp - 48, tp - 52, tp - 56, tp - 60, tp - 64}"
    unfolding word_addrs_16 by auto
  then have "((m::word32 \<Rightarrow> word32)(tp - 4 := 0x01000000, tp - 8 := task, tp - 12 := 0,
      tp - 16 := 0, tp - 20 := 0, tp - 24 := 0, tp - 28 := 0, tp - 32 := 0, tp - 36 := 0,
      tp - 40 := 0, tp - 44 := 0, tp - 48 := 0, tp - 52 := 0, tp - 56 := 0, tp - 60 := 0,
      tp - 64 := 0)) x =
    (m'(tp - 4 := 0x01000000, tp - 8 := task, tp - 12 := 0,
      tp - 16 := 0, tp - 20 := 0, tp - 24 := 0, tp - 28 := 0, tp - 32 := 0, tp - 36 := 0,
      tp - 40 := 0, tp - 44 := 0, tp - 48 := 0, tp - 52 := 0, tp - 56 := 0, tp - 60 := 0,
      tp - 64 := 0)) x" for m m'
    by (elim insertE emptyE) simp_all
  with False show ?thesis
    by (simp add: OS_ThreadInit_mem Let_def tp_def [symmetric])
qed


text \<open>
  Claim C9. Let \<open>stack_size \<ge> 16\<close> and let the buffer lie in the address space. Then
  the sixteen words \<open>OS_ThreadInit\<close> writes are \<open>stack_array[stack_size - 16]\<close> ..
  \<open>stack_array[stack_size - 1]\<close>, all inside the buffer; the TCB's \<open>stack_pointer\<close> field
  becomes \<open>&stack_array[stack_size - 16]\<close>; no other cell changes, so every word of the
  buffer below index \<open>stack_size - 16\<close>, the TCB's \<open>next\<close> field and the globals
  \<open>current_tcb\<close> and \<open>next_tcb\<close> keep their values (as far as they are not the very
  cells written, that is, as the objects do not overlap); and what is written does not
  depend on the state before, so nothing is read.
\<close>

theorem OS_ThreadInit_footprint:
  assumes big: "16 \<le> stack_size" and fits: "uint stack_array + 4 * stack_size \<le> 2 ^ 32"
  shows "let s' = OS_ThreadInit tcb stack_array stack_size task s;
             W = set (written_words stack_array stack_size);
             B = buffer_cells stack_array stack_size
         in W \<subseteq> B \<and>
            mem s' (stack_pointer_field tcb) = buffer_cell stack_array (stack_size - 16) \<and>
            (stack_pointer_field tcb \<notin> W \<longrightarrow>
               map (mem s') (written_words stack_array stack_size) =
                 [0, 0, 0, 0, 0, 0, 0, 0, 0, 0, 0, 0, 0, 0, task, 0x01000000]) \<and>
            (\<forall>x. x \<notin> W \<longrightarrow> x \<noteq> stack_pointer_field tcb \<longrightarrow> mem s' x = mem s x) \<and>
            (\<forall>i. 0 \<le> i \<longrightarrow> i < stack_size - 16 \<longrightarrow>
               buffer_cell stack_array i \<noteq> stack_pointer_field tcb \<longrightarrow>
               mem s' (buffer_cell stack_array i) = mem s (buffer_cell stack_array i)) \<and>
            (next_field tcb \<notin> B \<longrightarrow> mem s' (next_field tcb) = mem s (next_field tcb)) \<and>
            (current_tcb_addr L \<notin> insert (stack_pointer_field tcb) B \<longrightarrow>
               current_tcb L s' = current_tcb L s) \<and>
            (next_tcb_addr L \<notin> insert (stack_pointer_field tcb) B \<longrightarrow>
               next_tcb L s' = next_tcb L s) \<and>
            (\<forall>s2. \<forall>x \<in> insert (stack_pointer_field tcb) W.
               mem (OS_ThreadInit tcb stack_array stack_size task s2) x = mem s' x)"
proof -
  let ?s' = "OS_ThreadInit tcb stack_array stack_size task s"
  let ?W = "set (written_words stack_array stack_size)"
  let ?B = "buffer_cells stack_array stack_size"
  note ww = word_addrs_written [of stack_array stack_size]
  have sub: "?W \<subseteq> ?B" by (rule written_words_subset [OF big])
  have sp: "mem ?s' (stack_pointer_field tcb) = buffer_cell stack_array (stack_size - 16)"
    by (simp add: OS_ThreadInit_mem Let_def buffer_cell_def stack_top_def)
  have rd: "map (mem ?s') (written_words stack_array stack_size) =
      [0, 0, 0, 0, 0, 0, 0, 0, 0, 0, 0, 0, 0, 0, task, 0x01000000]"
    if "stack_pointer_field tcb \<notin> ?W"
    using OS_ThreadInit_readback [of tcb stack_array stack_size task s] that
    by (simp add: read_words_def ww)
  have other: "mem ?s' x = mem s x" if "x \<notin> ?W" "x \<noteq> stack_pointer_field tcb" for x
    using that by (intro OS_ThreadInit_mem_other) (simp_all add: ww)
  have below: "mem ?s' (buffer_cell stack_array i) = mem s (buffer_cell stack_array i)"
    if "0 \<le> i" "i < stack_size - 16" "buffer_cell stack_array i \<noteq> stack_pointer_field tcb"
    for i
    using below_not_written [OF fits that(1,2)] that(3) by (rule other)
  have nf: "next_field tcb \<noteq> stack_pointer_field tcb"
    by (simp add: next_field_def stack_pointer_field_def)
  have nxt: "mem ?s' (next_field tcb) = mem s (next_field tcb)" if "next_field tcb \<notin> ?B"
    using that sub nf by (intro other) blast+
  have g: "mem ?s' x = mem s x" if "x \<notin> insert (stack_pointer_field tcb) ?B" for x
    using that sub by (intro other) blast+
  have ind: "mem (OS_ThreadInit tcb stack_array stack_size task s2) x = mem ?s' x"
    if "x \<in> insert (stack_pointer_field tcb) ?W" for s2 x
    using that by (intro OS_ThreadInit_independent) (simp add: ww)
  show ?thesis
    unfolding Let_def current_tcb_def next_tcb_def
    using sub sp rd other below nxt g ind by (intro conjI allI impI ballI)
qed

lemma word_addrs_64:
  "word_addrs a 64 =
     word_addrs a 16 @ word_addrs (a + 64) 16 @ word_addrs (a + 128) 16 @ word_addrs (a + 192) 16"
proof -
  have "word_addrs a 64 = word_addrs a (16 + 48)" by simp
  also have "\<dots> = word_addrs a 16 @ word_addrs (a + 64) 48"
    by (simp only: word_addrs_append) (simp add: add.commute)
  also have "word_addrs (a + 64) 48 = word_addrs (a + 64) (16 + 32)" by simp
  also have "\<dots> = word_addrs (a + 64) 16 @ word_addrs (a + 128) 32"
    by (simp only: word_addrs_append) (simp add: add.commute)
  also have "word_addrs (a + 128) 32 = word_addrs (a + 128) (16 + 16)" by simp
  also have "\<dots> = word_addrs (a + 128) 16 @ word_addrs (a + 192) 16"
    by (simp only: word_addrs_append) (simp add: add.commute)
  finally show ?thesis .
qed

theorem OS_ThreadInit_footprint_witness:
  "mem (OS_ThreadInit tcb_t1 stack_s1 STACK_SIZE task_1 t1_running)
      (stack_pointer_field tcb_t1) = 0x200010C0 \<and>
   mem (OS_ThreadInit tcb_t1 stack_s1 STACK_SIZE task_1 t1_running) (buffer_cell stack_s1 47) =
     mem t1_running (buffer_cell stack_s1 47) \<and>
   mem (OS_ThreadInit tcb_t1 stack_s1 STACK_SIZE task_1 t1_running) (next_field tcb_t1) = tcb_t2 \<and>
   current_tcb usage_symbols (OS_ThreadInit tcb_t1 stack_s1 STACK_SIZE task_1 t1_running) =
     tcb_t1"
proof -
  let ?s' = "OS_ThreadInit tcb_t1 stack_s1 STACK_SIZE task_1 t1_running"
  have big: "16 \<le> STACK_SIZE" by (simp add: STACK_SIZE_def)
  have fits: "uint stack_s1 + 4 * STACK_SIZE \<le> 2 ^ 32"
    by (simp add: STACK_SIZE_def stack_s1_def)
  note T = OS_ThreadInit_footprint [OF big fits, of tcb_t1 task_1 t1_running usage_symbols,
      unfolded Let_def]
  have B: "buffer_cells stack_s1 STACK_SIZE = set (word_addrs 0x20001000 64)"
    by (simp add: buffer_cells_def STACK_SIZE_def stack_s1_def)
  have h1: "buffer_cell stack_s1 47 \<noteq> stack_pointer_field tcb_t1"
    by (simp add: buffer_cell_def usage_defs)
  have h2: "next_field tcb_t1 \<notin> buffer_cells stack_s1 STACK_SIZE"
    unfolding B by (simp add: word_addrs_64 word_addrs_16 usage_defs)
  have h3: "current_tcb_addr usage_symbols \<notin>
      insert (stack_pointer_field tcb_t1) (buffer_cells stack_s1 STACK_SIZE)"
    unfolding B by (simp add: word_addrs_64 word_addrs_16 usage_defs)
  note c2 = T [THEN conjunct2]
  note c5 = c2 [THEN conjunct2, THEN conjunct2, THEN conjunct2]
  note c6 = c5 [THEN conjunct2]
  note c7 = c6 [THEN conjunct2]
  have "mem ?s' (stack_pointer_field tcb_t1) = buffer_cell stack_s1 (STACK_SIZE - 16)"
    by (rule c2 [THEN conjunct1])
  then have a: "mem ?s' (stack_pointer_field tcb_t1) = 0x200010C0"
    by (simp add: buffer_cell_def usage_defs)
  have i: "(0::int) \<le> 47" "47 < STACK_SIZE - 16" by (simp_all add: STACK_SIZE_def)
  have b: "mem ?s' (buffer_cell stack_s1 47) = mem t1_running (buffer_cell stack_s1 47)"
    by (rule c5 [THEN conjunct1, rule_format, OF i h1])
  have "mem ?s' (next_field tcb_t1) = mem t1_running (next_field tcb_t1)"
    by (rule c6 [THEN conjunct1, rule_format, OF h2])
  then have c: "mem ?s' (next_field tcb_t1) = tcb_t2"
    by (simp add: t1_running_def usage_defs)
  have "current_tcb usage_symbols ?s' = current_tcb usage_symbols t1_running"
    by (rule c7 [THEN conjunct1, rule_format, OF h3])
  then have d: "current_tcb usage_symbols ?s' = tcb_t1"
    by (simp add: current_tcb_def t1_running_def usage_defs)
  from a b c d show ?thesis by (intro conjI)
qed

section \<open>current_tcb stays non-null\<close>

lemma SysTick_Handler_current:
  assumes "SysTick_Handler L s = Some s'" "current_tcb_addr L \<noteq> next_tcb_addr L"
  shows "current_tcb L s' = current_tcb L s"
proof (cases "current_tcb L s = 0")
  case True
  with assms(1) show ?thesis by (simp add: SysTick_Handler_def)
next
  case False
  from SysTick_Handler_Some [OF False] assms show ?thesis
    by (auto simp add: current_tcb_def)
qed

lemma non_null_preserved:
  assumes "current_tcb_addr L \<noteq> next_tcb_addr L" "0 \<notin> set ts"
    "next_tcb_in_ring L ts hs s" "current_tcb L s \<noteq> 0"
  shows "\<exists>tr. handler_trace L hs s = Some tr \<and> list_all (\<lambda>s'. current_tcb L s' \<noteq> 0) tr \<and>
           sentinel_skips L hs s = 0"
  using assms(3,4)
proof (induction hs arbitrary: s)
  case Nil
  then show ?case by simp
next
  case (Cons h hs)
  show ?case
  proof (cases h)
    case SysTick
    from SysTick_Handler_Some [OF Cons.prems(2)] obtain s1 where
      s1: "SysTick_Handler L s = Some s1" by blast
    from SysTick_Handler_current [OF s1 assms(1)] Cons.prems(2)
    have c1: "current_tcb L s1 \<noteq> 0" by simp
    from Cons.prems(1) SysTick s1 have "next_tcb_in_ring L ts hs s1" by simp
    from Cons.IH [OF this c1] obtain tr where
      "handler_trace L hs s1 = Some tr" "list_all (\<lambda>s'. current_tcb L s' \<noteq> 0) tr"
      "sentinel_skips L hs s1 = 0" by (elim exE conjE)
    with SysTick s1 c1 show ?thesis by simp
  next
    case PendSV
    let ?s1 = "PendSV_Handler L s"
    from Cons.prems(1) PendSV have "next_tcb L (save_context L s) \<in> set ts"
      and n: "next_tcb_in_ring L ts hs ?s1" by simp_all
    with assms(2) have c1: "current_tcb L ?s1 \<noteq> 0"
      by (metis PendSV_Handler_current)
    from Cons.IH [OF n c1] obtain tr where
      "handler_trace L hs ?s1 = Some tr" "list_all (\<lambda>s'. current_tcb L s' \<noteq> 0) tr"
      "sentinel_skips L hs ?s1 = 0" by (elim exE conjE)
    with PendSV c1 Cons.prems(2) show ?thesis by simp
  qed
qed

lemma first_switch_establishes:
  assumes "current_tcb_addr L \<noteq> next_tcb_addr L" "0 \<notin> set ts"
    "next_tcb_in_ring L ts (PendSV # hs) s"
  shows "\<exists>tr. handler_trace L (PendSV # hs) s = Some tr \<and>
           list_all (\<lambda>s'. current_tcb L s' \<noteq> 0) tr \<and>
           sentinel_skips L (PendSV # hs) s = (if current_tcb L s = 0 then 1 else 0)"
proof -
  let ?s1 = "PendSV_Handler L s"
  from assms(3) have "next_tcb L (save_context L s) \<in> set ts"
    and n: "next_tcb_in_ring L ts hs ?s1" by simp_all
  with assms(2) have c1: "current_tcb L ?s1 \<noteq> 0"
    by (metis PendSV_Handler_current)
  from non_null_preserved [OF assms(1,2) n c1] obtain tr where
    "handler_trace L hs ?s1 = Some tr" "list_all (\<lambda>s'. current_tcb L s' \<noteq> 0) tr"
    "sentinel_skips L hs ?s1 = 0" by (elim exE conjE)
  with c1 show ?thesis by simp
qed

lemma sentinel_skips_le_1:
  assumes "current_tcb_addr L \<noteq> next_tcb_addr L" "0 \<notin> set ts"
    "next_tcb_in_ring L ts hs s"
  shows "sentinel_skips L hs s \<le> 1"
proof (cases "current_tcb L s = 0")
  case False
  from non_null_preserved [OF assms False] show ?thesis by auto
next
  case True
  show ?thesis
  proof (cases hs)
    case Nil
    then show ?thesis by simp
  next
    case (Cons h hs')
    show ?thesis
    proof (cases h)
      case SysTick
      with Cons True show ?thesis by (simp add: SysTick_Handler_def)
    next
      case PendSV
      from first_switch_establishes [OF assms(1,2), of hs' s] assms(3) Cons PendSV
      show ?thesis by auto
    qed
  qed
qed

text \<open>
  Claim C10. Take an execution of the handlers in which, whenever the trampoline runs,
  \<open>next_tcb\<close> points at a TCB of the ring (TCBs are not at address 0, and the two globals
  are distinct). The trampoline always ends with \<open>current_tcb\<close> equal to the value it
  read from \<open>next_tcb\<close>, and the tick handler leaves \<open>current_tcb\<close> as it is. So once
  the trampoline has run, \<open>current_tcb\<close> is non-null in every later state, every handler
  returns, and the save-skipping branch on a null \<open>current_tcb\<close> is taken at most once
  in the whole execution (never, when \<open>current_tcb\<close> is non-null at the start).
\<close>

theorem current_tcb_non_null_invariant:
  assumes g: "current_tcb_addr L \<noteq> next_tcb_addr L" and nz: "0 \<notin> set ts"
    and nx: "next_tcb_in_ring L ts hs s"
  shows "current_tcb L (PendSV_Handler L s) = next_tcb L (save_context L s) \<and>
         (\<forall>s'. SysTick_Handler L s = Some s' \<longrightarrow> current_tcb L s' = current_tcb L s) \<and>
         (\<forall>hs'. hs = PendSV # hs' \<longrightarrow>
            (\<exists>tr. handler_trace L hs s = Some tr \<and>
                  list_all (\<lambda>s'. current_tcb L s' \<noteq> 0) tr)) \<and>
         (current_tcb L s \<noteq> 0 \<longrightarrow>
            (\<exists>tr. handler_trace L hs s = Some tr \<and>
                  list_all (\<lambda>s'. current_tcb L s' \<noteq> 0) tr \<and>
                  sentinel_skips L hs s = 0)) \<and>
         sentinel_skips L hs s \<le> 1"
proof (intro conjI allI impI)
  show "current_tcb L (PendSV_Handler L s) = next_tcb L (save_context L s)"
    by (rule PendSV_Handler_current)
next
  fix s' assume "SysTick_Handler L s = Some s'"
  then show "current_tcb L s' = current_tcb L s"
    using g by (rule SysTick_Handler_current)
next
  fix hs' assume h: "hs = PendSV # hs'"
  from first_switch_establishes [OF g nz, of hs' s] nx h
  obtain tr where "handler_trace L hs s = Some tr" "list_all (\<lambda>s'. current_tcb L s' \<noteq> 0) tr"
    by (elim exE conjE | simp)+
  then show "\<exists>tr. handler_trace L hs s = Some tr \<and> list_all (\<lambda>s'. current_tcb L s' \<noteq> 0) tr"
    by (intro exI conjI)
next
  assume "current_tcb L s \<noteq> 0"
  then show "\<exists>tr. handler_trace L hs s = Some tr \<and>
      list_all (\<lambda>s'. current_tcb L s' \<noteq> 0) tr \<and> sentinel_skips L hs s = 0"
    by (rule non_null_preserved [OF g nz nx])
next
  show "sentinel_skips L hs s \<le> 1"
    by (rule sentinel_skips_le_1 [OF g nz nx])
qed

theorem current_tcb_non_null_invariant_witness:
  "(\<exists>tr. handler_trace usage_symbols [PendSV, SysTick, PendSV] usage_boot = Some tr \<and>
         list_all (\<lambda>s'. current_tcb usage_symbols s' \<noteq> 0) tr) \<and>
   sentinel_skips usage_symbols [PendSV, SysTick, PendSV] usage_boot \<le> 1 \<and>
   current_tcb usage_symbols (PendSV_Handler usage_symbols usage_boot) = tcb_t1"
proof -
  let ?L = usage_symbols and ?ts = "[tcb_t1, tcb_t2, tcb_t3]"
  let ?s1 = "PendSV_Handler ?L usage_boot"
  have g: "current_tcb_addr ?L \<noteq> next_tcb_addr ?L" by (simp add: usage_defs)
  have nz: "0 \<notin> set ?ts" by (simp add: usage_defs)
  have cur0: "current_tcb ?L usage_boot = 0"
    by (simp add: current_tcb_def usage_boot_def OS_ThreadInit_mem Let_def usage_defs)
  have nxt0: "next_tcb ?L usage_boot = tcb_t1"
    by (simp add: next_tcb_def usage_boot_def OS_ThreadInit_mem Let_def usage_defs)
  have n1: "next_tcb ?L (save_context ?L usage_boot) = tcb_t1"
    using nxt0 by (simp add: next_tcb_def save_context_null [OF cur0])
  have cur1: "current_tcb ?L ?s1 = tcb_t1"
    by (simp only: PendSV_Handler_current n1)
  have c1: "current_tcb ?L ?s1 \<noteq> 0"
    unfolding cur1 by (simp add: usage_defs)
  have sc0: "save_cells ?L usage_boot = {}"
    by (simp add: save_cells_def cur0)
  have keep: "mem ?s1 x = mem usage_boot x" if "x \<noteq> current_tcb_addr ?L" for x
    using that by (intro PendSV_Handler_mem_other) (simp_all add: sc0)
  have "mem usage_boot (next_field tcb_t1) = tcb_t2"
    by (simp add: usage_boot_def OS_ThreadInit_mem Let_def usage_defs)
  moreover have "next_field tcb_t1 \<noteq> current_tcb_addr ?L" by (simp add: usage_defs)
  ultimately have nf1: "mem ?s1 (next_field tcb_t1) = tcb_t2"
    by (simp add: keep)
  have "mem usage_boot (stack_pointer_field tcb_t1) = 0x200010C0"
    by (simp add: usage_boot_def OS_ThreadInit_mem Let_def usage_defs)
  moreover have "stack_pointer_field tcb_t1 \<noteq> current_tcb_addr ?L" by (simp add: usage_defs)
  ultimately have sp1: "mem ?s1 (stack_pointer_field tcb_t1) = 0x200010C0"
    by (simp add: keep)
  have psp1: "PSP ?s1 = 0x200010E0"
    using PendSV_Handler_PSP [of ?L usage_boot] by (simp add: cur1 sp1)
  define s2 where "s2 = ?s1\<lparr>mem := (mem ?s1)(next_tcb_addr ?L :=
      mem ?s1 (next_field (current_tcb ?L ?s1))), ICSR := ICSR ?s1 OR push_bit 28 1\<rparr>"
  have tick: "SysTick_Handler ?L ?s1 = Some s2"
    unfolding s2_def by (rule SysTick_Handler_Some [OF c1])
  have nxt2: "next_tcb ?L s2 = tcb_t2"
    by (simp add: s2_def next_tcb_def cur1 nf1)
  have cur2: "current_tcb ?L s2 = tcb_t1"
    using SysTick_Handler_current [OF tick g] by (simp add: cur1)
  have psp2: "PSP s2 - 32 = 0x200010C0"
    by (simp add: s2_def psp1)
  have t1: "tcb_t1 \<noteq> 0" by (simp add: usage_defs)
  have sc2: "save_cells ?L s2 = set (word_addrs 0x200010C0 8) \<union> {tcb_t1}"
    by (simp add: save_cells_def cur2 t1 psp2 stack_pointer_field_def)
  have out: "next_tcb_addr ?L \<notin> save_cells ?L s2"
    unfolding sc2 by (simp add: word_addrs_8 usage_defs)
  have n2: "next_tcb ?L (save_context ?L s2) = tcb_t2"
    by (simp only: next_tcb_save_context [OF out] nxt2)
  have nx: "next_tcb_in_ring ?L ?ts [PendSV, SysTick, PendSV] usage_boot"
    by (simp add: n1 n2 tick)
  note T = current_tcb_non_null_invariant [OF g nz nx]
  have a: "\<exists>tr. handler_trace ?L [PendSV, SysTick, PendSV] usage_boot = Some tr \<and>
         list_all (\<lambda>s'. current_tcb ?L s' \<noteq> 0) tr"
    by (rule T [THEN conjunct2, THEN conjunct2, THEN conjunct1, rule_format, OF refl])
  have b: "sentinel_skips ?L [PendSV, SysTick, PendSV] usage_boot \<le> 1"
    by (rule T [THEN conjunct2, THEN conjunct2, THEN conjunct2, THEN conjunct2])
  have "current_tcb ?L ?s1 = next_tcb ?L (save_context ?L usage_boot)"
    by (rule T [THEN conjunct1])
  then have c: "current_tcb ?L ?s1 = tcb_t1" by (simp only: n1)
  from a b c show ?thesis by (intro conjI)
qed

end
